theory Spec2Isabelle
  imports Complex_Main "HOL-Library.Multiset"
begin

section \<open>Vectors\<close>

text \<open>
  The viewer computes with THREE.Vector3 values. Coordinates are modelled as real numbers:
  the JavaScript doubles are idealised, NaN and the infinities are written out where the
  source tests for them (\<open>isNaN\<close> after \<open>parseFloat\<close>, \<open>isFinite\<close> of a quotient).
  The operations below are the methods of THREE.Vector3 that the source calls.
\<close>

record vec3 =
  vx :: real
  vy :: real
  vz :: real

definition vec :: "real \<Rightarrow> real \<Rightarrow> real \<Rightarrow> vec3" where
  "vec x y z = \<lparr>vx = x, vy = y, vz = z\<rparr>"

definition addVectors :: "vec3 \<Rightarrow> vec3 \<Rightarrow> vec3" where
  "addVectors a b = vec (vx a + vx b) (vy a + vy b) (vz a + vz b)"

definition subVectors :: "vec3 \<Rightarrow> vec3 \<Rightarrow> vec3" where
  "subVectors a b = vec (vx a - vx b) (vy a - vy b) (vz a - vz b)"

definition multiplyScalar :: "vec3 \<Rightarrow> real \<Rightarrow> vec3" where
  "multiplyScalar a k = vec (vx a * k) (vy a * k) (vz a * k)"

definition divideScalar :: "vec3 \<Rightarrow> real \<Rightarrow> vec3" where
  "divideScalar a k = multiplyScalar a (1 / k)"

definition negate :: "vec3 \<Rightarrow> vec3" where
  "negate a = vec (- vx a) (- vy a) (- vz a)"

definition dot :: "vec3 \<Rightarrow> vec3 \<Rightarrow> real" where
  "dot a b = vx a * vx b + vy a * vy b + vz a * vz b"

definition crossVectors :: "vec3 \<Rightarrow> vec3 \<Rightarrow> vec3" where
  "crossVectors a b =
     vec (vy a * vz b - vz a * vy b) (vz a * vx b - vx a * vz b) (vx a * vy b - vy a * vx b)"

definition lengthSq :: "vec3 \<Rightarrow> real" where
  "lengthSq a = vx a * vx a + vy a * vy a + vz a * vz a"

definition vlength :: "vec3 \<Rightarrow> real" where
  "vlength a = sqrt (lengthSq a)"

text \<open>\<open>normalize\<close> is \<open>divideScalar(length() || 1)\<close>: the zero vector stays zero.\<close>

definition normalize :: "vec3 \<Rightarrow> vec3" where
  "normalize a = divideScalar a (if vlength a = 0 then 1 else vlength a)"

section \<open>Scene objects and the viewer's state\<close>

text \<open>
  JavaScript objects are shared by reference, and the operations below compare them by
  identity and mutate their \<open>parent\<close> and \<open>children\<close> fields, so the Object3D instances
  live in a store indexed by references. World matrices are derived from the local
  transforms by \<open>updateMatrixWorld\<close>; they are not stored, so a call that only refreshes
  them leaves the store as it is.
\<close>

type_synonym ref = nat

record bufferGeometry =
  attributePosition :: "vec3 list option"
  attributeIndex :: "nat list option"

record object3d =
  parent :: "ref option"
  children :: "ref list"
  isMesh :: bool
  is2DPanel :: bool
  castShadow :: bool
  position :: vec3
  geometry :: "bufferGeometry option"

record app_state =
  objects :: "ref \<Rightarrow> object3d"
  nextRef :: ref
  scene :: ref
  modelContainer :: "ref option"
  directionalLight :: ref
  directionalLightTarget :: ref
  draggableObjects :: "ref set"
  localPivotToBBoxCenterOffsets :: "ref \<rightharpoonup> vec3"
  originalMaterials :: "ref set"
  intersectedObject :: "ref option"
  coordPopupShown :: bool
  shadowCoveragePopupShown :: bool
  coordinateModalShown :: bool
  isDragging :: bool
  pointerDownOnDraggable :: bool
  controlsEnabled :: bool

text \<open>
  Object3D.remove(child): nothing happens unless the child is in the children array;
  otherwise its parent is cleared and it is spliced out.
\<close>

definition removeChild :: "ref \<Rightarrow> ref \<Rightarrow> (ref \<Rightarrow> object3d) \<Rightarrow> (ref \<Rightarrow> object3d)" where
  "removeChild p c os =
     (if c \<in> set (children (os p))
      then (let os1 = os(c := (os c)\<lparr>parent := None\<rparr>)
            in os1(p := (os1 p)\<lparr>children := remove1 c (children (os1 p))\<rparr>))
      else os)"

text \<open>
  Object3D.add(child): an object cannot be added to itself; the child leaves its former
  parent, gets the new one and is pushed at the end of the children array.
\<close>

definition addChild :: "ref \<Rightarrow> ref \<Rightarrow> (ref \<Rightarrow> object3d) \<Rightarrow> (ref \<Rightarrow> object3d)" where
  "addChild p c os =
     (if c = p then os
      else (let os1 = (case parent (os c) of None \<Rightarrow> os | Some q \<Rightarrow> removeChild q c os);
                os2 = os1(c := (os1 c)\<lparr>parent := Some p\<rparr>)
            in os2(p := (os2 p)\<lparr>children := children (os2 p) @ [c]\<rparr>)))"

text \<open>
  A ray of the Raycaster. A sampled point read outside the position buffer has NaN
  coordinates; such an origin is \<open>None\<close>.
\<close>

record ray =
  origin :: "vec3 option"
  direction :: vec3

text \<open>
  The queries that the source makes on world matrices and the ray casting are library
  calls; they are parameters: the centre of \<open>Box3.setFromObject(object, true)\<close>,
  \<open>getWorldPosition\<close>, the rotation of a vector by the inverse of
  \<open>getWorldQuaternion\<close>, \<open>applyMatrix4\<close> of the inverse of the baseline container's
  world matrix and of an object's own world matrix, and
  \<open>Raycaster.intersectObjects(list, true)\<close>, which returns the objects hit in the
  subtrees of the listed objects, nearest first.
\<close>

record three =
  worldBBoxCenter :: "(ref \<Rightarrow> object3d) \<Rightarrow> ref \<Rightarrow> vec3"
  getWorldPosition :: "(ref \<Rightarrow> object3d) \<Rightarrow> ref \<Rightarrow> vec3"
  applyInverseWorldQuaternion :: "(ref \<Rightarrow> object3d) \<Rightarrow> ref \<Rightarrow> vec3 \<Rightarrow> vec3"
  applyInverseBaseModelWorldMatrix :: "(ref \<Rightarrow> object3d) \<Rightarrow> vec3 \<Rightarrow> vec3"
  applyMatrixWorld :: "(ref \<Rightarrow> object3d) \<Rightarrow> ref \<Rightarrow> vec3 \<Rightarrow> vec3"
  intersectObjects :: "(ref \<Rightarrow> object3d) \<Rightarrow> ray \<Rightarrow> ref list \<Rightarrow> ref list"

definition calculateAndStoreLocalBBoxOffset :: "three \<Rightarrow> ref \<Rightarrow> app_state \<Rightarrow> app_state" where
  "calculateAndStoreLocalBBoxOffset lib object s =
     (let worldBBoxCenter = worldBBoxCenter lib (objects s) object;
          worldPivotPosition = getWorldPosition lib (objects s) object;
          worldOffsetFromPivotToBBoxCenter = subVectors worldBBoxCenter worldPivotPosition;
          localOffset = applyInverseWorldQuaternion lib (objects s) object
                          worldOffsetFromPivotToBBoxCenter
      in s\<lparr>localPivotToBBoxCenterOffsets :=
             (localPivotToBBoxCenterOffsets s)(object \<mapsto> localOffset)\<rparr>)"

section \<open>Panel validation and construction\<close>

text \<open>
  The three geometric checks of \<open>addObjectToScene\<close>, in the order of the source, on the
  four points already mapped into the baseline frame. Each failure is an alert followed
  by \<open>return\<close>; the off-plane alert shows the projected fourth point (printed with two
  decimals).
\<close>

datatype panel_check =
    FirstThreeCollinear
  | FourthPointOffPlane vec3
  | DegenerateSecondTriangle
  | PanelValid

definition EPSILON :: real where
  "EPSILON = 0.01"

definition COLLINEARITY_EPSILON_SQ :: real where
  "COLLINEARITY_EPSILON_SQ = 0.0001"

definition panelChecks :: "vec3 \<Rightarrow> vec3 \<Rightarrow> vec3 \<Rightarrow> vec3 \<Rightarrow> panel_check" where
  "panelChecks p1 p2 p3 p4 =
     (let v1_2 = subVectors p2 p1;
          v1_3 = subVectors p3 p1;
          normal = normalize (crossVectors v1_2 v1_3)
      in if lengthSq (crossVectors v1_2 v1_3) < COLLINEARITY_EPSILON_SQ
         then FirstThreeCollinear
         else (let vectorP4toP1 = subVectors p4 p1;
                   dotProduct = dot vectorP4toP1 normal
               in if \<bar>dotProduct\<bar> > EPSILON
                  then FourthPointOffPlane (subVectors p4 (multiplyScalar normal dotProduct))
                  else (let v1_4 = subVectors p4 p1;
                            v2_3 = subVectors p3 p2;
                            v2_4 = subVectors p4 p2
                        in if lengthSq (crossVectors v1_3 v1_4) < COLLINEARITY_EPSILON_SQ
                              \<or> lengthSq (crossVectors v1_2 v1_4) < COLLINEARITY_EPSILON_SQ
                              \<or> lengthSq (crossVectors v2_3 v2_4) < COLLINEARITY_EPSILON_SQ
                           then DegenerateSecondTriangle
                           else PanelValid)))"

text \<open>
  A form field parsed by \<open>parseFloat\<close> is a number or NaN (\<open>None\<close>). The loop over the
  four points stops at the first point with a NaN coordinate.
\<close>

type_synonym coord_input = "real option \<times> real option \<times> real option"

fun parsePoint :: "coord_input \<Rightarrow> vec3 option" where
  "parsePoint (Some x, Some y, Some z) = Some (vec x y z)"
| "parsePoint _ = None"

datatype alert =
    InvalidCoordinates
  | ValidationFailed panel_check
  | PanelAdded

text \<open>
  \<open>addObjectToScene\<close>. The new mesh gets the next free reference; it is added under the
  model container when there is one, under the scene otherwise, registered as draggable,
  and its pivot offset is computed. The function returns the alert it showed.
\<close>

definition newPanelMesh :: "vec3 \<Rightarrow> vec3 \<Rightarrow> vec3 \<Rightarrow> vec3 \<Rightarrow> object3d" where
  "newPanelMesh p1 p2 p3 p4 =
     \<lparr>parent = None, children = [], isMesh = True, is2DPanel = True,
      castShadow = True, position = vec 0 0 0,
      geometry = Some \<lparr>attributePosition = Some [p1, p2, p3, p4],
                            attributeIndex = Some [0, 1, 2, 0, 2, 3]\<rparr>\<rparr>"

definition addObjectToScene ::
  "three \<Rightarrow> coord_input \<times> coord_input \<times> coord_input \<times> coord_input \<Rightarrow> app_state
     \<Rightarrow> alert \<times> app_state" where
  "addObjectToScene lib form s =
     (case form of (c1, c2, c3, c4) \<Rightarrow>
        (case (parsePoint c1, parsePoint c2, parsePoint c3, parsePoint c4) of
           (Some q1, Some q2, Some q3, Some q4) \<Rightarrow>
             (let p1 = applyInverseBaseModelWorldMatrix lib (objects s) q1;
                  p2 = applyInverseBaseModelWorldMatrix lib (objects s) q2;
                  p3 = applyInverseBaseModelWorldMatrix lib (objects s) q3;
                  p4 = applyInverseBaseModelWorldMatrix lib (objects s) q4
              in (case panelChecks p1 p2 p3 p4 of
                    PanelValid \<Rightarrow>
                      (let customObject = nextRef s;
                           os1 = (objects s)(customObject := newPanelMesh p1 p2 p3 p4);
                           os2 = (case modelContainer s of
                                    Some mc \<Rightarrow> addChild mc customObject os1
                                  | None \<Rightarrow> addChild (scene s) customObject os1);
                           s1 = s\<lparr>objects := os2, nextRef := Suc customObject,
                                  draggableObjects := insert customObject (draggableObjects s),
                                  originalMaterials := insert customObject (originalMaterials s)\<rparr>;
                           s2 = calculateAndStoreLocalBBoxOffset lib customObject s1
                       in (PanelAdded, s2\<lparr>coordinateModalShown := False\<rparr>))
                  | failure \<Rightarrow> (ValidationFailed failure, s)))
         | _ \<Rightarrow> (InvalidCoordinates, s)))"

section \<open>Deleting the selected object\<close>

text \<open>
  \<open>hideCoordPopup\<close> also drops the selection; \<open>restoreOriginalMaterials\<close> forgets the
  saved material of a selected mesh.
\<close>

definition restoreOriginalMaterials :: "ref \<Rightarrow> app_state \<Rightarrow> app_state" where
  "restoreOriginalMaterials objectToRestore s =
     (if isMesh (objects s objectToRestore) \<and> objectToRestore \<in> originalMaterials s
      then s\<lparr>originalMaterials := originalMaterials s - {objectToRestore}\<rparr>
      else s)"

definition hideCoordPopup :: "app_state \<Rightarrow> app_state" where
  "hideCoordPopup s =
     (let s1 = s\<lparr>coordPopupShown := False\<rparr>;
          s2 = (case intersectedObject s1 of
                  None \<Rightarrow> s1
                | Some obj \<Rightarrow> (restoreOriginalMaterials obj s1)\<lparr>intersectedObject := None\<rparr>)
      in s2\<lparr>isDragging := False, pointerDownOnDraggable := False\<rparr>)"

definition hideShadowCoveragePopup :: "app_state \<Rightarrow> app_state" where
  "hideShadowCoveragePopup s = s\<lparr>shadowCoveragePopupShown := False\<rparr>"

text \<open>
  \<open>deleteSelectedObject\<close>; the answer to the \<open>confirm\<close> dialog is the first argument.
  Disposing geometry and materials frees GPU resources and does not touch the state
  modelled here.
\<close>

definition deleteSelectedObject :: "bool \<Rightarrow> app_state \<Rightarrow> app_state" where
  "deleteSelectedObject confirmed s =
     (case intersectedObject s of
        None \<Rightarrow> s
      | Some obj \<Rightarrow>
          if \<not> confirmed then s
          else (let parentGroup = parent (objects s obj);
                    os1 = (case parentGroup of
                             Some p \<Rightarrow> removeChild p obj (objects s)
                           | None \<Rightarrow> objects s);
                    s1 = s\<lparr>objects := os1,
                           draggableObjects := draggableObjects s - {obj},
                           localPivotToBBoxCenterOffsets :=
                             (localPivotToBBoxCenterOffsets s)(obj := None)\<rparr>;
                    os2 = (case parentGroup of
                             Some p \<Rightarrow>
                               if Some p \<noteq> modelContainer s1 \<and> children (os1 p) = []
                               then (case parent (os1 p) of
                                       Some g \<Rightarrow> removeChild g p os1
                                     | None \<Rightarrow> os1)
                               else os1
                           | None \<Rightarrow> os1);
                    s2 = hideShadowCoveragePopup (hideCoordPopup (s1\<lparr>objects := os2\<rparr>))
                in s2\<lparr>controlsEnabled := True\<rparr>))"

section \<open>Number formatting\<close>

text \<open>
  \<open>Number.prototype.toFixed(f)\<close> for magnitudes below \<open>10^21\<close>: a negative number gets a
  minus sign and is formatted by its absolute value; the integer \<open>n\<close> with \<open>n / 10^f\<close>
  nearest to the number (the larger one on a tie) is written in decimal, padded with zeros
  to at least \<open>f + 1\<close> digits, with a point before the last \<open>f\<close> digits.
\<close>

definition digitChar :: "nat \<Rightarrow> char" where
  "digitChar d = ''0123456789'' ! d"

fun decimalDigits :: "nat \<Rightarrow> string" where
  "decimalDigits n =
     (if n < 10 then [digitChar n] else decimalDigits (n div 10) @ [digitChar (n mod 10)])"

declare decimalDigits.simps [simp del]

definition toFixedAbs :: "nat \<Rightarrow> real \<Rightarrow> string" where
  "toFixedAbs f x =
     (let n = nat \<lfloor>x * 10 ^ f + 1 / 2\<rfloor>;
          m = decimalDigits n;
          m' = (if f \<noteq> 0 \<and> length m \<le> f then replicate (f + 1 - length m) CHR ''0'' @ m else m)
      in if f = 0 then m'
         else take (length m' - f) m' @ ''.'' @ drop (length m' - f) m')"

definition toFixed :: "nat \<Rightarrow> real \<Rightarrow> string" where
  "toFixed f x = (if x < 0 then ''-'' @ toFixedAbs f (- x) else toFixedAbs f x)"

section \<open>Shadow coverage\<close>

text \<open>
  \<open>calculateShadowCoverage\<close> returns the number \<open>0\<close> on its early exits and the string
  made by \<open>toFixed(1)\<close> otherwise.
\<close>

datatype js_value = Number real | String string

text \<open>
  Reading a buffer: \<open>index.getX(k)\<close> and \<open>fromBufferAttribute(positionAttribute, a)\<close>
  give \<open>undefined\<close>, hence NaN coordinates, outside the array (\<open>None\<close>).
\<close>

definition getX :: "nat list \<Rightarrow> int \<Rightarrow> int option" where
  "getX ix k = (if 0 \<le> k \<and> nat k < length ix then Some (int (ix ! nat k)) else None)"

definition fromBufferAttribute :: "vec3 list \<Rightarrow> int option \<Rightarrow> vec3 option" where
  "fromBufferAttribute attr a =
     (case a of
        None \<Rightarrow> None
      | Some k \<Rightarrow> if 0 \<le> k \<and> nat k < length attr then Some (attr ! nat k) else None)"

definition lightDirection :: "app_state \<Rightarrow> vec3" where
  "lightDirection s =
     normalize (subVectors (position (objects s (directionalLightTarget s)))
                           (position (objects s (directionalLight s))))"

text \<open>
  The point sampled on a random face; \<open>r0\<close>, \<open>r1\<close>, \<open>r2\<close> are the three results of
  \<open>Math.random()\<close> of one iteration.
\<close>

definition pointOnTriangle ::
  "three \<Rightarrow> app_state \<Rightarrow> ref \<Rightarrow> vec3 list \<Rightarrow> nat list option \<Rightarrow> real \<Rightarrow> real \<Rightarrow> real
     \<Rightarrow> vec3 option" where
  "pointOnTriangle lib s object positionAttribute index r0 r1 r2 =
     (let faceCount = (case index of
                         Some ix \<Rightarrow> real (length ix) / 3
                       | None \<Rightarrow> real (length positionAttribute) / 3);
          faceIndex = \<lfloor>r0 * faceCount\<rfloor>;
          a = (case index of Some ix \<Rightarrow> getX ix (faceIndex * 3) | None \<Rightarrow> Some (faceIndex * 3));
          b = (case index of Some ix \<Rightarrow> getX ix (faceIndex * 3 + 1)
                           | None \<Rightarrow> Some (faceIndex * 3 + 1));
          c = (case index of Some ix \<Rightarrow> getX ix (faceIndex * 3 + 2)
                           | None \<Rightarrow> Some (faceIndex * 3 + 2));
          r1' = (if r1 + r2 > 1 then 1 - r1 else r1);
          r2' = (if r1 + r2 > 1 then 1 - r2 else r2)
      in case (fromBufferAttribute positionAttribute a,
               fromBufferAttribute positionAttribute b,
               fromBufferAttribute positionAttribute c) of
           (Some vA, Some vB, Some vC) \<Rightarrow>
             (let wA = applyMatrixWorld lib (objects s) object vA;
                  wB = applyMatrixWorld lib (objects s) object vB;
                  wC = applyMatrixWorld lib (objects s) object vC
              in Some (addVectors (addVectors (multiplyScalar wA (1 - r1' - r2'))
                                              (multiplyScalar wB r1'))
                                  (multiplyScalar wC r2')))
         | _ \<Rightarrow> None)"

definition shadowRay :: "app_state \<Rightarrow> vec3 option \<Rightarrow> ray" where
  "shadowRay s point =
     \<lparr>origin = map_option
                 (\<lambda>p. addVectors p (multiplyScalar (negate (lightDirection s)) 0.005)) point,
      direction = negate (lightDirection s)\<rparr>"

definition shadowTargets :: "app_state \<Rightarrow> ref \<Rightarrow> ref list" where
  "shadowTargets s object =
     filter (\<lambda>child. child \<noteq> object \<and> child \<noteq> directionalLight s)
            (children (objects s (scene s)))"

text \<open>The loop over the hits: the first shadow-casting hit sets the flag and breaks.\<close>

fun anyCastsShadow :: "(ref \<Rightarrow> object3d) \<Rightarrow> ref list \<Rightarrow> bool" where
  "anyCastsShadow os [] = False"
| "anyCastsShadow os (h # hs) = (if castShadow (os h) then True else anyCastsShadow os hs)"

definition isInShadow ::
  "three \<Rightarrow> app_state \<Rightarrow> ref \<Rightarrow> vec3 list \<Rightarrow> nat list option \<Rightarrow> real \<Rightarrow> real \<Rightarrow> real
     \<Rightarrow> bool" where
  "isInShadow lib s object positionAttribute index r0 r1 r2 =
     (let point = pointOnTriangle lib s object positionAttribute index r0 r1 r2;
          intersects = intersectObjects lib (objects s) (shadowRay s point)
                         (shadowTargets s object)
      in anyCastsShadow (objects s) intersects)"

text \<open>
  The sampling loop; \<open>random k\<close> is the \<open>k\<close>-th result of \<open>Math.random()\<close> during the
  call, three per iteration. \<open>shadowedSamplesUpTo \<dots> n\<close> is the counter after the
  iterations \<open>0 \<dots> n - 1\<close>.
\<close>

definition totalSamples :: nat where
  "totalSamples = 1000"

fun shadowedSamplesUpTo ::
  "three \<Rightarrow> (nat \<Rightarrow> real) \<Rightarrow> app_state \<Rightarrow> ref \<Rightarrow> vec3 list \<Rightarrow> nat list option \<Rightarrow> nat
     \<Rightarrow> nat" where
  "shadowedSamplesUpTo lib random s object positionAttribute index 0 = 0"
| "shadowedSamplesUpTo lib random s object positionAttribute index (Suc i) =
     (let shadowedSamples = shadowedSamplesUpTo lib random s object positionAttribute index i
      in if isInShadow lib s object positionAttribute index
              (random (3 * i)) (random (3 * i + 1)) (random (3 * i + 2))
         then shadowedSamples + 1 else shadowedSamples)"

definition coveragePercentage :: "nat \<Rightarrow> real" where
  "coveragePercentage shadowedSamples = real shadowedSamples / real totalSamples * 100"

definition calculateShadowCoverage ::
  "three \<Rightarrow> (nat \<Rightarrow> real) \<Rightarrow> app_state \<Rightarrow> ref option \<Rightarrow> js_value" where
  "calculateShadowCoverage lib random s object =
     (case object of
        None \<Rightarrow> Number 0
      | Some obj \<Rightarrow>
          if \<not> isMesh (objects s obj) then Number 0
          else (case geometry (objects s obj) of
                  None \<Rightarrow> Number 0
                | Some g \<Rightarrow>
                    (case attributePosition g of
                       None \<Rightarrow> Number 0
                     | Some pos \<Rightarrow>
                         String (toFixed 1 (coveragePercentage
                           (shadowedSamplesUpTo lib random s obj pos (attributeIndex g)
                              totalSamples))))))"

text \<open>
  The inputs on which the sampling loop runs: a mesh that has a geometry with a position
  attribute.
\<close>

definition samplable :: "app_state \<Rightarrow> ref option \<Rightarrow> bool" where
  "samplable s object =
     (case object of
        None \<Rightarrow> False
      | Some obj \<Rightarrow>
          isMesh (objects s obj)
          \<and> (case geometry (objects s obj) of
                None \<Rightarrow> False
              | Some g \<Rightarrow> attributePosition g \<noteq> None))"

section \<open>Draggable object classifier\<close>

text \<open>
  \<open>identifyDraggableObjectsByDimension\<close> walks the loaded hierarchy, which is a tree; a node
  of it carries what the first pass reads: the \<open>isMesh\<close> and \<open>isGroup\<close> flags,
  \<open>userData.is2DPanel\<close>, the vertices of its geometry in world coordinates (\<open>None\<close> for an
  object without geometry) and its children.
\<close>

datatype node =
  Node (nodeName: string) (nodeIsMesh: bool) (nodeIsGroup: bool) (nodeIs2DPanel: bool)
       (nodeWorldVertices: "vec3 list option") (nodeChildren: "node list")

text \<open>
  THREE.Box3: the empty box (\<open>makeEmpty\<close>, minimum above maximum) is \<open>None\<close>.
  \<open>setFromObject(object, true)\<close> empties the box and expands it by every vertex of the
  object and of its descendants.
\<close>

type_synonym box3 = "(vec3 \<times> vec3) option"

definition expandByPoint :: "vec3 \<Rightarrow> box3 \<Rightarrow> box3" where
  "expandByPoint p box =
     (case box of
        None \<Rightarrow> Some (p, p)
      | Some (mn, mx) \<Rightarrow>
          Some (vec (min (vx mn) (vx p)) (min (vy mn) (vy p)) (min (vz mn) (vz p)),
                vec (max (vx mx) (vx p)) (max (vy mx) (vy p)) (max (vz mx) (vz p))))"

fun expandByObject :: "node \<Rightarrow> box3 \<Rightarrow> box3" where
  "expandByObject (Node nm m g p vs cs) box =
     fold expandByObject cs
       (fold expandByPoint (case vs of None \<Rightarrow> [] | Some ps \<Rightarrow> ps) box)"

definition setFromObject :: "node \<Rightarrow> box3" where
  "setFromObject object = expandByObject object None"

definition isEmpty :: "box3 \<Rightarrow> bool" where
  "isEmpty box = (box = None)"

definition getSize :: "box3 \<Rightarrow> vec3" where
  "getSize box = (case box of None \<Rightarrow> vec 0 0 0 | Some (mn, mx) \<Rightarrow> subVectors mx mn)"

definition isSinglePoint :: "box3 \<Rightarrow> bool" where
  "isSinglePoint box =
     (case box of
        None \<Rightarrow> False
      | Some (mn, mx) \<Rightarrow> vx mx = vx mn \<and> vy mx = vy mn \<and> vz mx = vz mn)"

fun containsMesh :: "node \<Rightarrow> bool" where
  "containsMesh (Node nm m g p vs cs) = (if m then True else list_ex containsMesh cs)"

fun traverse :: "node \<Rightarrow> node list" where
  "traverse (Node nm m g p vs cs) = Node nm m g p vs cs # concat (map traverse cs)"

definition DRAGGABLE_MIN_DIMENSION :: real where
  "DRAGGABLE_MIN_DIMENSION = 0.1"

definition DRAGGABLE_MAX_DIMENSION :: real where
  "DRAGGABLE_MAX_DIMENSION = 1.2"

definition maxDim :: "node \<Rightarrow> real" where
  "maxDim object =
     (let size = getSize (setFromObject object) in max (max (vx size) (vy size)) (vz size))"

definition minDim :: "node \<Rightarrow> real" where
  "minDim object =
     (let size = getSize (setFromObject object) in min (min (vx size) (vy size)) (vz size))"

text \<open>
  The callback of the first pass on a node other than the root: whether the node is pushed
  on \<open>objectsToProcessForDraggability\<close>.
\<close>

definition isDraggableCandidate :: "real \<Rightarrow> real \<Rightarrow> node \<Rightarrow> bool" where
  "isDraggableCandidate maxDimensionThreshold minDimensionThreshold object =
     (if nodeIsMesh object \<and> nodeIs2DPanel object then True
      else if \<not> nodeIsMesh object \<and> \<not> nodeIsGroup object then False
      else if \<not> containsMesh object then False
      else if isEmpty (setFromObject object) \<or> isSinglePoint (setFromObject object) then False
      else maxDim object \<le> maxDimensionThreshold \<and> minDim object \<ge> minDimensionThreshold)"

text \<open>
  The first pass: \<open>traverse\<close> visits the root first and then the subtrees of its children;
  the callback returns at once on the root.
\<close>

definition objectsToProcessForDraggability :: "node \<Rightarrow> real \<Rightarrow> real \<Rightarrow> node list" where
  "objectsToProcessForDraggability rootObject maxDimensionThreshold minDimensionThreshold =
     filter (isDraggableCandidate maxDimensionThreshold minDimensionThreshold)
            (tl (traverse rootObject))"

section \<open>Coplanar faces and their areas\<close>

subsection \<open>Polygon area\<close>

definition cross2 :: "real \<times> real \<Rightarrow> real \<times> real \<Rightarrow> real" where
  "cross2 p1 p2 = fst p1 * snd p2 - snd p1 * fst p2"

text \<open>The loop adds \<open>p[i] \<times> p[(i + 1) % n]\<close> for every index \<open>i\<close>.\<close>

definition shoelaceSum :: "(real \<times> real) list \<Rightarrow> real" where
  "shoelaceSum ps = sum_list (map2 cross2 ps (rotate1 ps))"

text \<open>
  The scale factor \<open>1 / |n|\<close> is infinite when the component is zero; the source then
  returns the projected area.
\<close>

definition calculatePolygonArea :: "vec3 list \<Rightarrow> real" where
  "calculatePolygonArea vertices =
     (if length vertices < 3 then 0
      else (let v1 = subVectors (vertices ! 1) (vertices ! 0);
                v2 = subVectors (vertices ! 2) (vertices ! 0);
                normal = normalize (crossVectors v1 v2);
                absNormalX = \<bar>vx normal\<bar>;
                absNormalY = \<bar>vy normal\<bar>;
                absNormalZ = \<bar>vz normal\<bar>;
                projectedVertices =
                  (if absNormalX \<ge> absNormalY \<and> absNormalX \<ge> absNormalZ
                   then map (\<lambda>v. (vy v, vz v)) vertices
                   else if absNormalY \<ge> absNormalX \<and> absNormalY \<ge> absNormalZ
                   then map (\<lambda>v. (vx v, vz v)) vertices
                   else map (\<lambda>v. (vx v, vy v)) vertices);
                projectedArea = \<bar>shoelaceSum projectedVertices\<bar> / 2;
                dominant =
                  (if absNormalX \<ge> absNormalY \<and> absNormalX \<ge> absNormalZ then absNormalX
                   else if absNormalY \<ge> absNormalX \<and> absNormalY \<ge> absNormalZ then absNormalY
                   else absNormalZ)
            in if dominant = 0 then projectedArea
               else projectedArea * (1 / dominant)))"

subsection \<open>Triangles of a mesh\<close>

text \<open>
  A triangle with a vertex read outside the position buffer has NaN coordinates and a NaN
  normal: every comparison on it is false, so it never joins a group and its own group
  gives no face. Such triangles are \<open>NaNTriangle\<close>.
\<close>

datatype triangle = Triangle vec3 vec3 vec3 | NaNTriangle

definition makeTriangle ::
  "(vec3 \<Rightarrow> vec3) \<Rightarrow> vec3 option \<Rightarrow> vec3 option \<Rightarrow> vec3 option \<Rightarrow> triangle" where
  "makeTriangle toWorld a b c =
     (case (a, b, c) of
        (Some vA, Some vB, Some vC) \<Rightarrow> Triangle (toWorld vA) (toWorld vB) (toWorld vC)
      | _ \<Rightarrow> NaNTriangle)"

text \<open>Both iterations \<open>for (i = 0; i < count; i += 3)\<close>, with and without an index.\<close>

definition trianglesOf :: "(vec3 \<Rightarrow> vec3) \<Rightarrow> vec3 list \<Rightarrow> nat list option \<Rightarrow> triangle list" where
  "trianglesOf toWorld positionAttribute index =
     (case index of
        Some ix \<Rightarrow>
          map (\<lambda>k. makeTriangle toWorld
                      (fromBufferAttribute positionAttribute (getX ix (int (3 * k))))
                      (fromBufferAttribute positionAttribute (getX ix (int (3 * k + 1))))
                      (fromBufferAttribute positionAttribute (getX ix (int (3 * k + 2)))))
              [0 ..< (length ix + 2) div 3]
      | None \<Rightarrow>
          map (\<lambda>k. makeTriangle toWorld
                      (fromBufferAttribute positionAttribute (Some (int (3 * k))))
                      (fromBufferAttribute positionAttribute (Some (int (3 * k + 1))))
                      (fromBufferAttribute positionAttribute (Some (int (3 * k + 2)))))
              [0 ..< (length positionAttribute + 2) div 3])"

text \<open>
  \<open>Triangle.getNormal\<close>: the cross product of \<open>c - b\<close> and \<open>a - b\<close>, scaled to length one
  unless it is zero. \<open>Plane.setFromCoplanarPoints\<close> and \<open>distanceToPoint\<close>.
\<close>

definition getNormal :: "vec3 \<Rightarrow> vec3 \<Rightarrow> vec3 \<Rightarrow> vec3" where
  "getNormal a b c =
     (let target = crossVectors (subVectors c b) (subVectors a b);
          targetLengthSq = lengthSq target
      in if targetLengthSq > 0 then multiplyScalar target (1 / sqrt targetLengthSq)
         else vec 0 0 0)"

record plane3 =
  normalOfPlane :: vec3
  constantOfPlane :: real

definition setFromCoplanarPoints :: "vec3 \<Rightarrow> vec3 \<Rightarrow> vec3 \<Rightarrow> plane3" where
  "setFromCoplanarPoints a b c =
     (let normal = normalize (crossVectors (subVectors c b) (subVectors a b))
      in \<lparr>normalOfPlane = normal, constantOfPlane = - dot a normal\<rparr>)"

definition distanceToPoint :: "plane3 \<Rightarrow> vec3 \<Rightarrow> real" where
  "distanceToPoint pl point = dot (normalOfPlane pl) point + constantOfPlane pl"

subsection \<open>Greedy grouping\<close>

definition coplanarTolerance :: real where
  "coplanarTolerance = 0.01"

text \<open>
  The test of the inner loop: the normals agree and no vertex of the other triangle is
  farther than the tolerance from the plane of the current one.
\<close>

definition joinsFace :: "triangle \<Rightarrow> triangle \<Rightarrow> bool" where
  "joinsFace currentTriangle otherTriangle =
     (case (currentTriangle, otherTriangle) of
        (Triangle a b c, Triangle a' b' c') \<Rightarrow>
          dot (getNormal a b c) (getNormal a' b' c') > 1 - coplanarTolerance
          \<and> list_all (\<lambda>v. \<not> \<bar>distanceToPoint (setFromCoplanarPoints a b c) v\<bar> > coplanarTolerance)
                      [a', b', c']
      | _ \<Rightarrow> False)"

text \<open>
  The inner loop over \<open>j\<close>: the indices still to scan, the set \<open>usedTriangles\<close> and the
  indices of \<open>currentFaceTriangles\<close> so far; it returns the last two.
\<close>

fun scanOthers ::
  "triangle list \<Rightarrow> nat \<Rightarrow> nat list \<Rightarrow> nat set \<Rightarrow> nat list \<Rightarrow> nat list \<times> nat set" where
  "scanOthers triangles i [] usedTriangles currentFace = (currentFace, usedTriangles)"
| "scanOthers triangles i (j # js) usedTriangles currentFace =
     (if j \<in> usedTriangles then scanOthers triangles i js usedTriangles currentFace
      else if joinsFace (triangles ! i) (triangles ! j)
      then scanOthers triangles i js (insert j usedTriangles) (currentFace @ [j])
      else scanOthers triangles i js usedTriangles currentFace)"

text \<open>
  The outer loop over \<open>i\<close>: the groups of triangle indices, one for every iteration that
  does not \<open>continue\<close>.
\<close>

fun groupFrom :: "triangle list \<Rightarrow> nat list \<Rightarrow> nat set \<Rightarrow> nat list list" where
  "groupFrom triangles [] usedTriangles = []"
| "groupFrom triangles (i # is) usedTriangles =
     (if i \<in> usedTriangles then groupFrom triangles is usedTriangles
      else (case scanOthers triangles i [Suc i ..< length triangles]
                   (insert i usedTriangles) [i] of
              (currentFace, usedTriangles') \<Rightarrow>
                currentFace # groupFrom triangles is usedTriangles'))"

definition groupTriangles :: "triangle list \<Rightarrow> nat list list" where
  "groupTriangles triangles = groupFrom triangles [0 ..< length triangles] {}"

subsection \<open>Faces\<close>

text \<open>
  \<open>Map.set\<close> keeps the position of a key that is already present and replaces its
  value; a new key goes to the end. \<open>Array.from(map.values())\<close> lists the values in
  that order.
\<close>

fun mapSet :: "string \<Rightarrow> vec3 \<Rightarrow> (string \<times> vec3) list \<Rightarrow> (string \<times> vec3) list" where
  "mapSet k v [] = [(k, v)]"
| "mapSet k v (e # es) = (if fst e = k then (k, v) # es else e # mapSet k v es)"

definition vertexKey :: "vec3 \<Rightarrow> string" where
  "vertexKey v = toFixed 4 (vx v) @ '','' @ toFixed 4 (vy v) @ '','' @ toFixed 4 (vz v)"

definition triangleVertices :: "triangle \<Rightarrow> vec3 list" where
  "triangleVertices t = (case t of Triangle a b c \<Rightarrow> [a, b, c] | NaNTriangle \<Rightarrow> [])"

definition uniqueVerticesOf :: "triangle list \<Rightarrow> vec3 list" where
  "uniqueVerticesOf currentFaceTriangles =
     map snd (fold (\<lambda>v m. mapSet (vertexKey v) v m)
                   (concat (map triangleVertices currentFaceTriangles)) [])"

text \<open>\<open>Math.atan2\<close> on real arguments.\<close>

definition atan2 :: "real \<Rightarrow> real \<Rightarrow> real" where
  "atan2 y x =
     (if x > 0 then arctan (y / x)
      else if x < 0 \<and> y \<ge> 0 then arctan (y / x) + pi
      else if x < 0 then arctan (y / x) - pi
      else if y > 0 then pi / 2
      else if y < 0 then - pi / 2
      else 0)"

definition projectOnPlane :: "vec3 \<Rightarrow> vec3 \<Rightarrow> vec3" where
  "projectOnPlane v planeNormal =
     (let denominator = lengthSq planeNormal;
          projected = (if denominator = 0 then vec 0 0 0
                       else multiplyScalar planeNormal (dot planeNormal v / denominator))
      in subVectors v projected)"

definition centroidOf :: "vec3 list \<Rightarrow> vec3" where
  "centroidOf vs = divideScalar (fold (\<lambda>v c. addVectors c v) vs (vec 0 0 0)) (real (length vs))"

definition vertexAngle :: "vec3 \<Rightarrow> vec3 \<Rightarrow> vec3 \<Rightarrow> real" where
  "vertexAngle currentNormal centroid a =
     (let basisX = (if \<bar>vx currentNormal\<bar> < 0.9 \<and> \<bar>vy currentNormal\<bar> < 0.9
                    then normalize (projectOnPlane (vec 1 0 0) currentNormal)
                    else normalize (projectOnPlane (vec 0 1 0) currentNormal));
          basisY = normalize (crossVectors currentNormal basisX);
          vecA = subVectors a centroid
      in atan2 (dot vecA basisY) (dot vecA basisX))"

text \<open>
  The comparator \<open>angleA - angleB\<close> orders by angle; \<open>Array.prototype.sort\<close> is stable.
\<close>

definition sortByAngle :: "vec3 \<Rightarrow> vec3 list \<Rightarrow> vec3 list" where
  "sortByAngle currentNormal uniqueVertices =
     (if length uniqueVertices > 2
      then sort_key (vertexAngle currentNormal (centroidOf uniqueVertices)) uniqueVertices
      else uniqueVertices)"

record face =
  faceVertices :: "vec3 list"
  faceNormal :: vec3
  faceArea :: real

text \<open>The face of one group, if its area is positive.\<close>

definition faceOfGroup :: "triangle list \<Rightarrow> nat list \<Rightarrow> face option" where
  "faceOfGroup triangles currentFace =
     (case triangles ! hd currentFace of
        NaNTriangle \<Rightarrow> None
      | Triangle a b c \<Rightarrow>
          (let currentNormal = getNormal a b c;
               uniqueVertices = sortByAngle currentNormal
                                  (uniqueVerticesOf (map (\<lambda>k. triangles ! k) currentFace));
               area = calculatePolygonArea uniqueVertices
           in if area > 0
              then Some \<lparr>faceVertices = uniqueVertices, faceNormal = currentNormal,
                         faceArea = area\<rparr>
              else None))"

text \<open>\<open>faces.sort((a, b) => b.area - a.area)\<close>: by decreasing area, stable.\<close>

definition facesOfTriangles :: "triangle list \<Rightarrow> face list" where
  "facesOfTriangles triangles =
     sort_key (\<lambda>f. - faceArea f)
       (List.map_filter (faceOfGroup triangles) (groupTriangles triangles))"

definition getFacesWithAreas :: "three \<Rightarrow> (ref \<Rightarrow> object3d) \<Rightarrow> ref option \<Rightarrow> face list" where
  "getFacesWithAreas lib os object =
     (case object of
        None \<Rightarrow> []
      | Some obj \<Rightarrow>
          if \<not> isMesh (os obj) then []
          else (case geometry (os obj) of
                  None \<Rightarrow> []
                | Some g \<Rightarrow>
                    (case attributePosition g of
                       None \<Rightarrow> []
                     | Some positionAttribute \<Rightarrow>
                         facesOfTriangles
                           (trianglesOf (applyMatrixWorld lib os obj) positionAttribute
                              (attributeIndex g)))))"

section \<open>The library on objects without transformations\<close>

text \<open>
  For objects whose world matrix is the identity, the bounding box and the ray caster of
  three.js can be written out. \<open>Box3.setFromObject\<close> collects the vertices of the
  object and of its descendants, down to \<open>depth\<close> levels, to be taken at least as
  large as the height of the scene graph; the centre of the empty box is the origin.
\<close>

definition ownVertices :: "(ref \<Rightarrow> object3d) \<Rightarrow> ref \<Rightarrow> vec3 list" where
  "ownVertices os object =
     (case geometry (os object) of
        None \<Rightarrow> []
      | Some g \<Rightarrow> (case attributePosition g of None \<Rightarrow> [] | Some positions \<Rightarrow> positions))"

fun verticesBelow :: "nat \<Rightarrow> (ref \<Rightarrow> object3d) \<Rightarrow> ref \<Rightarrow> vec3 list" where
  "verticesBelow 0 os object = ownVertices os object"
| "verticesBelow (Suc depth) os object =
     ownVertices os object @ concat (map (verticesBelow depth os) (children (os object)))"

definition getCenter :: "box3 \<Rightarrow> vec3" where
  "getCenter box =
     (case box of
        None \<Rightarrow> vec 0 0 0
      | Some (mn, mx) \<Rightarrow> multiplyScalar (addVectors mn mx) 0.5)"

definition bboxCenter :: "nat \<Rightarrow> (ref \<Rightarrow> object3d) \<Rightarrow> ref \<Rightarrow> vec3" where
  "bboxCenter depth os object =
     getCenter (fold expandByPoint (verticesBelow depth os object) None)"

text \<open>
  \<open>Raycaster.intersectObjects(objects, true)\<close>. \<open>Ray.intersectTriangle\<close> gives the
  point where the ray meets a triangle; \<open>Mesh.raycast\<close> tries every triangle of the
  geometry, with the winding and the culling that the side of the material asks for, and
  records the distance from the ray's origin; the descent visits an object and then its
  children; the hits are sorted by distance. Objects that are not meshes record nothing.
  A ray whose origin is NaN fails the bounding-sphere test of every mesh and records
  nothing; for other rays that test and the bounding-box test only skip meshes of which
  the ray meets no triangle.
\<close>

datatype side = FrontSide | BackSide | DoubleSide

definition intersectTriangle ::
  "vec3 \<Rightarrow> vec3 \<Rightarrow> vec3 \<Rightarrow> vec3 \<Rightarrow> vec3 \<Rightarrow> bool \<Rightarrow> vec3 option" where
  "intersectTriangle rayOrigin rayDirection a b c backfaceCulling =
     (let edge1 = subVectors b a;
          edge2 = subVectors c a;
          normal = crossVectors edge1 edge2;
          DdN = dot rayDirection normal
      in if DdN > 0 \<and> backfaceCulling then None
         else if DdN = 0 then None
         else (let sign = (if DdN > 0 then 1 else - 1);
                   DdN' = (if DdN > 0 then DdN else - DdN);
                   diff = subVectors rayOrigin a;
                   DdQxE2 = sign * dot rayDirection (crossVectors diff edge2)
               in if DdQxE2 < 0 then None
                  else (let DdE1xQ = sign * dot rayDirection (crossVectors edge1 diff)
                        in if DdE1xQ < 0 then None
                           else if DdQxE2 + DdE1xQ > DdN' then None
                           else (let QdN = - sign * dot diff normal
                                 in if QdN < 0 then None
                                    else Some (addVectors rayOrigin
                                                 (multiplyScalar rayDirection (QdN / DdN')))))))"

text \<open>The distance of the hit of one triangle, if the ray meets it.\<close>

definition checkIntersection :: "side \<Rightarrow> vec3 \<Rightarrow> vec3 \<Rightarrow> triangle \<Rightarrow> real option" where
  "checkIntersection materialSide rayOrigin rayDirection t =
     (case t of
        NaNTriangle \<Rightarrow> None
      | Triangle pA pB pC \<Rightarrow>
          map_option (\<lambda>point. vlength (subVectors rayOrigin point))
            (if materialSide = BackSide
             then intersectTriangle rayOrigin rayDirection pC pB pA True
             else intersectTriangle rayOrigin rayDirection pA pB pC (materialSide = FrontSide)))"

definition raycastMesh ::
  "(ref \<Rightarrow> side) \<Rightarrow> (ref \<Rightarrow> object3d) \<Rightarrow> ray \<Rightarrow> ref \<Rightarrow> (real \<times> ref) list" where
  "raycastMesh sideOf os r object =
     (case (isMesh (os object), origin r, geometry (os object)) of
        (True, Some rayOrigin, Some g) \<Rightarrow>
          (case attributePosition g of
             None \<Rightarrow> []
           | Some positionAttribute \<Rightarrow>
               map (\<lambda>distance. (distance, object))
                 (List.map_filter (checkIntersection (sideOf object) rayOrigin (direction r))
                    (trianglesOf (\<lambda>v. v) positionAttribute (attributeIndex g))))
      | _ \<Rightarrow> [])"

text \<open>
  The descent into the children, \<open>depth\<close> levels below the object.
\<close>

fun intersectObject ::
  "nat \<Rightarrow> (ref \<Rightarrow> side) \<Rightarrow> (ref \<Rightarrow> object3d) \<Rightarrow> ray \<Rightarrow> ref \<Rightarrow> (real \<times> ref) list" where
  "intersectObject 0 sideOf os r object = raycastMesh sideOf os r object"
| "intersectObject (Suc depth) sideOf os r object =
     raycastMesh sideOf os r object
     @ concat (map (intersectObject depth sideOf os r) (children (os object)))"

definition raycasterIntersectObjects ::
  "nat \<Rightarrow> (ref \<Rightarrow> side) \<Rightarrow> (ref \<Rightarrow> object3d) \<Rightarrow> ray \<Rightarrow> ref list \<Rightarrow> ref list" where
  "raycasterIntersectObjects depth sideOf os r targets =
     map snd (sort_key fst (concat (map (intersectObject depth sideOf os r) targets)))"

section \<open>A small scene\<close>

text \<open>
  A scene without rotations, scalings or translations of the meshes, so that world and
  local coordinates coincide: the scene (0) holds the light pivot (1) with the directional
  light (4) one unit above the origin, the light's target (2) at the origin and the
  baseline container (3) with the model container (5); under the model container are a
  triangular panel (6) in the plane \<open>z = 0\<close>, a marker mesh that casts no shadow (7) in
  the plane \<open>z = 0.3\<close> and a wall that casts shadows (8) in the plane \<open>z = 0.6\<close>. Marker
  and wall lie above the corner \<open>(1, 0, 0)\<close> of the panel and face it. The panel is
  selected and draggable; it has the double-sided material of the panels, the other
  meshes the one-sided standard material.
\<close>

definition emptyObject :: object3d where
  "emptyObject =
     \<lparr>parent = None, children = [], isMesh = False, is2DPanel = False, castShadow = False,
      position = vec 0 0 0, geometry = None\<rparr>"

definition examplePositions :: "vec3 list" where
  "examplePositions = [vec 1 0 0, vec (- 1) 1 0, vec 0 (- 1) 0]"

definition coverAt :: "real \<Rightarrow> vec3 list" where
  "coverAt z = [vec 0 (- 1) z, vec 1 2 z, vec 2 (- 1) z]"

definition exampleMesh :: "ref \<Rightarrow> bool \<Rightarrow> bool \<Rightarrow> vec3 list \<Rightarrow> object3d" where
  "exampleMesh p panel casts positions =
     emptyObject\<lparr>parent := Some p, isMesh := True, is2DPanel := panel, castShadow := casts,
       geometry := Some \<lparr>attributePosition = Some positions, attributeIndex = None\<rparr>\<rparr>"

definition exampleObjects :: "ref \<Rightarrow> object3d" where
  "exampleObjects =
     (\<lambda>r. emptyObject)
       (0 := emptyObject\<lparr>children := [1, 2, 3]\<rparr>,
        1 := emptyObject\<lparr>parent := Some 0, children := [4]\<rparr>,
        2 := emptyObject\<lparr>parent := Some 0\<rparr>,
        3 := emptyObject\<lparr>parent := Some 0, children := [5]\<rparr>,
        4 := emptyObject\<lparr>parent := Some 1, castShadow := True, position := vec 0 0 1\<rparr>,
        5 := emptyObject\<lparr>parent := Some 3, children := [6, 7, 8]\<rparr>,
        6 := exampleMesh 5 True True examplePositions,
        7 := exampleMesh 5 False False (coverAt 0.3),
        8 := exampleMesh 5 False True (coverAt 0.6))"

definition exampleSide :: "ref \<Rightarrow> side" where
  "exampleSide r = (if r = 6 then DoubleSide else FrontSide)"

text \<open>The library calls on this scene, the graph of which has height three.\<close>

definition exampleThree :: three where
  "exampleThree =
     \<lparr>worldBBoxCenter = bboxCenter 3,
      getWorldPosition = (\<lambda>os r. position (os r)),
      applyInverseWorldQuaternion = (\<lambda>os r v. v),
      applyInverseBaseModelWorldMatrix = (\<lambda>os v. v),
      applyMatrixWorld = (\<lambda>os r v. v),
      intersectObjects = raycasterIntersectObjects 3 exampleSide\<rparr>"

definition exampleState :: app_state where
  "exampleState =
     \<lparr>objects = exampleObjects, nextRef = 9, scene = 0, modelContainer = Some 5,
      directionalLight = 4, directionalLightTarget = 2, draggableObjects = {6},
      localPivotToBBoxCenterOffsets = [6 \<mapsto> vec 0 0 0], originalMaterials = {6},
      intersectedObject = Some 6, coordPopupShown = True, shadowCoveragePopupShown = True,
      coordinateModalShown = True, isDragging = False, pointerDownOnDraggable = False,
      controlsEnabled = False\<rparr>"

text \<open>
  The ray of the sample taken at the corner \<open>(1, 0, 0)\<close> of the panel: it starts 0.005
  above the corner and points to the light.
\<close>

definition exampleRay :: ray where
  "exampleRay = \<lparr>origin = Some (vec 1 0 0.005), direction = vec 0 0 1\<rparr>"

text \<open>Form input: every field of a point holds a number.\<close>

definition numericInput :: "real \<Rightarrow> real \<Rightarrow> real \<Rightarrow> coord_input" where
  "numericInput x y z = (Some x, Some y, Some z)"

text \<open>
  Rigid units for the classifier: a group around one mesh whose two vertices span the
  given extents; a flat panel flagged as 2-D panel; a root that holds them.
\<close>

definition unitOfExtents :: "string \<Rightarrow> real \<Rightarrow> real \<Rightarrow> real \<Rightarrow> node" where
  "unitOfExtents nm x y z =
     Node nm False True False None
       [Node ''mesh'' True False False (Some [vec 0 0 0, vec x y z]) []]"

definition flatPanel :: node where
  "flatPanel = Node ''panel'' True False True (Some [vec 0 0 0, vec 1 0 0, vec 1 1 0, vec 0 1 0]) []"

definition exampleRoot :: node where
  "exampleRoot =
     Node ''root'' False True False None
       [unitOfExtents ''small'' 0.05 0.05 0.05, unitOfExtents ''thin'' 0.3 0.3 0.05,
        unitOfExtents ''large'' 1.5 0.3 0.3, unitOfExtents ''cube'' 0.3 0.3 0.3, flatPanel]"

text \<open>
  \<open>Triangle.getArea\<close>: half the length of the cross product of \<open>c - b\<close> and \<open>a - b\<close>.
  The sum of these areas over the triangles of a mesh is what the area of a merged face
  is compared with.
\<close>

definition triangleArea :: "triangle \<Rightarrow> real" where
  "triangleArea t =
     (case t of
        Triangle a b c \<Rightarrow> vlength (crossVectors (subVectors c b) (subVectors a b)) * 0.5
      | NaNTriangle \<Rightarrow> 0)"

text \<open>The divisor used by \<open>normalize\<close>.\<close>

definition unitScale :: "vec3 \<Rightarrow> real" where
  "unitScale n = (if vlength n = 0 then 1 else vlength n)"

text \<open>Auxiliary notions for the area proofs.\<close>

definition diff2 :: "real \<times> real \<Rightarrow> real \<times> real \<Rightarrow> real \<times> real" where
  "diff2 a b = (fst a - fst b, snd a - snd b)"

definition edgeCross :: "vec3 \<Rightarrow> vec3 \<Rightarrow> vec3 \<Rightarrow> vec3" where
  "edgeCross v0 x y = crossVectors (subVectors x v0) (subVectors y v0)"

text \<open>
  In the plane: the orientation of three points, points in convex position listed
  counter-clockwise, and the angle of a point.
\<close>

definition orient2 :: "real \<times> real \<Rightarrow> real \<times> real \<Rightarrow> real \<times> real \<Rightarrow> real" where
  "orient2 p q r = cross2 (diff2 q p) (diff2 r p)"

fun convex2 :: "(real \<times> real) list \<Rightarrow> bool" where
  "convex2 [] = True"
| "convex2 (a # qs) = (sorted_wrt (\<lambda>b c. 0 < orient2 a b c) qs \<and> convex2 qs)"

definition angleOf :: "real \<times> real \<Rightarrow> real" where
  "angleOf p = atan2 (snd p) (fst p)"

text \<open>
  The two axes that \<open>getFacesWithAreas\<close> lays into the plane of a face, and the
  coordinates of a vertex along them, taken from the centroid.
\<close>

definition facePlaneX :: "vec3 \<Rightarrow> vec3" where
  "facePlaneX n =
     (if \<bar>vx n\<bar> < 0.9 \<and> \<bar>vy n\<bar> < 0.9
      then normalize (projectOnPlane (vec 1 0 0) n)
      else normalize (projectOnPlane (vec 0 1 0) n))"

definition facePlaneY :: "vec3 \<Rightarrow> vec3" where
  "facePlaneY n = normalize (crossVectors n (facePlaneX n))"

definition planePoint :: "vec3 \<Rightarrow> vec3 \<Rightarrow> vec3 \<Rightarrow> real \<times> real" where
  "planePoint n c v = (dot (subVectors v c) (facePlaneX n), dot (subVectors v c) (facePlaneY n))"

text \<open>
  A flat, strictly convex outline: the vertices lie in one plane with unit normal \<open>u\<close>,
  and any three of them, taken in the order of the list, turn counter-clockwise when seen
  from the side that \<open>u\<close> points to.
\<close>

definition orientation :: "vec3 \<Rightarrow> vec3 \<Rightarrow> vec3 \<Rightarrow> vec3 \<Rightarrow> real" where
  "orientation u a b c = dot u (edgeCross a b c)"

fun positivelyOriented :: "vec3 \<Rightarrow> vec3 list \<Rightarrow> bool" where
  "positivelyOriented u [] = True"
| "positivelyOriented u (a # vs) =
     (sorted_wrt (\<lambda>b c. 0 < orientation u a b c) vs \<and> positivelyOriented u vs)"

definition convexOutline :: "vec3 \<Rightarrow> vec3 list \<Rightarrow> bool" where
  "convexOutline u vs \<longleftrightarrow>
     lengthSq u = 1 \<and> 3 \<le> length vs
     \<and> (\<forall>v \<in> set vs. dot u (subVectors v (hd vs)) = 0)
     \<and> positivelyOriented u vs"

text \<open>
  The triangulations of an outline that use no other vertex than its corners. An outline
  of two vertices is an edge and has no triangle. Otherwise one triangle stands on the
  closing edge, which leads from the last vertex \<open>b\<close> back to the first vertex \<open>a\<close>,
  with its apex at a vertex \<open>c\<close> between them, and the parts of the outline from \<open>a\<close>
  to \<open>c\<close> and from \<open>c\<close> to \<open>b\<close> are triangulated in the same way. The triangles
  come in any order, each of them with any of its vertices first.
\<close>

inductive triangulates :: "vec3 list \<Rightarrow> triangle list \<Rightarrow> bool" where
  edge: "triangulates [a, b] []"
| apex: "triangulates (a # xs @ [c]) ls \<Longrightarrow> triangulates (c # ys @ [b]) rs \<Longrightarrow>
         t \<in> {Triangle a c b, Triangle c b a, Triangle b a c} \<Longrightarrow>
         mset ts = mset (t # ls @ rs) \<Longrightarrow>
         triangulates (a # xs @ c # ys @ [b]) ts"

text \<open>
  A flat diamond with corners (1,0,0), (0,1,0), (-1,0,0), (0,-1,0), split into four
  triangles that meet at its centre (0,0,0); a mesh of one triangle; the outline of the
  unit square and its two triangles written with the indices (0,1,2), (2,3,0); and the
  square of side 2 around the origin with the vertices and the two triangles that
  \<open>PlaneGeometry\<close> of three.js gives it, whose outline is not the order in which the
  triangles list the vertices.
\<close>

definition diamondMesh :: object3d where
  "diamondMesh =
     emptyObject\<lparr>parent := Some 5, isMesh := True, castShadow := True,
       geometry := Some
         \<lparr>attributePosition =
            Some [vec 0 0 0, vec 1 0 0, vec 0 1 0, vec (- 1) 0 0, vec 0 (- 1) 0],
          attributeIndex = Some [0, 1, 2, 0, 2, 3, 0, 3, 4, 0, 4, 1]\<rparr>\<rparr>"

definition diamondTriangles :: "triangle list" where
  "diamondTriangles =
     [Triangle (vec 0 0 0) (vec 1 0 0) (vec 0 1 0),
      Triangle (vec 0 0 0) (vec 0 1 0) (vec (- 1) 0 0),
      Triangle (vec 0 0 0) (vec (- 1) 0 0) (vec 0 (- 1) 0),
      Triangle (vec 0 0 0) (vec 0 (- 1) 0) (vec 1 0 0)]"

definition squareOutline :: "vec3 list" where
  "squareOutline = [vec 0 0 0, vec 1 0 0, vec 1 1 0, vec 0 1 0]"

definition quadTriangles :: "triangle list" where
  "quadTriangles =
     [Triangle (vec 0 0 0) (vec 1 0 0) (vec 1 1 0), Triangle (vec 1 1 0) (vec 0 1 0) (vec 0 0 0)]"

definition planeOutline :: "vec3 list" where
  "planeOutline = [vec (- 1) 1 0, vec (- 1) (- 1) 0, vec 1 (- 1) 0, vec 1 1 0]"

definition planeTriangles :: "triangle list" where
  "planeTriangles =
     [Triangle (vec (- 1) 1 0) (vec (- 1) (- 1) 0) (vec 1 1 0),
      Triangle (vec (- 1) (- 1) 0) (vec 1 (- 1) 0) (vec 1 1 0)]"

definition unitTriangle :: triangle where
  "unitTriangle = Triangle (vec 0 0 0) (vec 1 0 0) (vec 0 1 0)"

section \<open>Properties\<close>

lemmas vec_ops = vec_def addVectors_def subVectors_def multiplyScalar_def divideScalar_def
  negate_def dot_def crossVectors_def lengthSq_def vlength_def normalize_def

lemmas example_defs = exampleState_def exampleObjects_def exampleThree_def exampleMesh_def
  coverAt_def exampleSide_def
  emptyObject_def examplePositions_def

lemmas classifier_defs = isDraggableCandidate_def maxDim_def minDim_def isEmpty_def
  isSinglePoint_def setFromObject_def getSize_def expandByPoint_def unitOfExtents_def
  flatPanel_def DRAGGABLE_MAX_DIMENSION_def DRAGGABLE_MIN_DIMENSION_def

subsection \<open>The example scene\<close>

text \<open>
  The bounding box of the panel is centred at its pivot, as the cache of offsets in the
  example state says.
\<close>

lemma example_bbox_center:
  "worldBBoxCenter exampleThree (objects exampleState) 6 = vec 0 0 0"
  "worldBBoxCenter exampleThree (objects exampleState) 8 = vec 1 (1 / 2) (3 / 5)"
  by (simp_all add: exampleThree_def bboxCenter_def getCenter_def ownVertices_def
        expandByPoint_def numeral_3_eq_3 exampleState_def exampleObjects_def exampleMesh_def
        emptyObject_def examplePositions_def coverAt_def vec_ops)

lemma example_offset:
  "calculateAndStoreLocalBBoxOffset exampleThree 6 exampleState = exampleState"
  by (simp add: calculateAndStoreLocalBBoxOffset_def Let_def example_bbox_center(1))
    (simp add: exampleThree_def exampleState_def exampleObjects_def exampleMesh_def
       emptyObject_def vec_ops)

subsection \<open>Classifier\<close>

text \<open>
  C1, as the code has it. A node below the root is pushed as a candidate exactly when it
  is a mesh flagged as 2-D panel (no dimension check), or it is a mesh or a group that
  contains a mesh, its world bounding box is neither empty nor a single point, its largest
  extent is at most 1.2 and its smallest extent at least 0.1. Units with extents
  (0.05, 0.05, 0.05), (0.3, 0.3, 0.05) and (1.5, 0.3, 0.3) are excluded, a unit with extents
  (0.3, 0.3, 0.3) and a flat 2-D panel are included.
\<close>

theorem candidate_rule:
  "(\<forall>object \<in> set (tl (traverse rootObject)).
      object \<in> set (objectsToProcessForDraggability rootObject
                       DRAGGABLE_MAX_DIMENSION DRAGGABLE_MIN_DIMENSION)
      \<longleftrightarrow> (nodeIsMesh object \<and> nodeIs2DPanel object)
          \<or> ((nodeIsMesh object \<or> nodeIsGroup object) \<and> containsMesh object
             \<and> \<not> isEmpty (setFromObject object) \<and> \<not> isSinglePoint (setFromObject object)
             \<and> maxDim object \<le> 1.2 \<and> minDim object \<ge> 0.1))
   \<and> \<not> isDraggableCandidate DRAGGABLE_MAX_DIMENSION DRAGGABLE_MIN_DIMENSION
         (unitOfExtents ''small'' 0.05 0.05 0.05)
   \<and> \<not> isDraggableCandidate DRAGGABLE_MAX_DIMENSION DRAGGABLE_MIN_DIMENSION
         (unitOfExtents ''thin'' 0.3 0.3 0.05)
   \<and> \<not> isDraggableCandidate DRAGGABLE_MAX_DIMENSION DRAGGABLE_MIN_DIMENSION
         (unitOfExtents ''large'' 1.5 0.3 0.3)
   \<and> isDraggableCandidate DRAGGABLE_MAX_DIMENSION DRAGGABLE_MIN_DIMENSION
         (unitOfExtents ''cube'' 0.3 0.3 0.3)
   \<and> isDraggableCandidate DRAGGABLE_MAX_DIMENSION DRAGGABLE_MIN_DIMENSION flatPanel"
proof (intro conjI ballI)
  fix object assume "object \<in> set (tl (traverse rootObject))"
  then show "object \<in> set (objectsToProcessForDraggability rootObject
                       DRAGGABLE_MAX_DIMENSION DRAGGABLE_MIN_DIMENSION)
      \<longleftrightarrow> (nodeIsMesh object \<and> nodeIs2DPanel object)
          \<or> ((nodeIsMesh object \<or> nodeIsGroup object) \<and> containsMesh object
             \<and> \<not> isEmpty (setFromObject object) \<and> \<not> isSinglePoint (setFromObject object)
             \<and> maxDim object \<le> 1.2 \<and> minDim object \<ge> 0.1)"
    by (auto simp: objectsToProcessForDraggability_def isDraggableCandidate_def
        DRAGGABLE_MAX_DIMENSION_def DRAGGABLE_MIN_DIMENSION_def)
qed (simp_all add: classifier_defs vec_ops)

text \<open>
  The rule at the example root: the cube passes the dimension test, the flat panel is a
  candidate although its smallest extent is zero.
\<close>

theorem candidate_rule_witness:
  "unitOfExtents ''cube'' 0.3 0.3 0.3 \<in> set (tl (traverse exampleRoot))
   \<and> unitOfExtents ''cube'' 0.3 0.3 0.3
       \<in> set (objectsToProcessForDraggability exampleRoot
                 DRAGGABLE_MAX_DIMENSION DRAGGABLE_MIN_DIMENSION)
   \<and> flatPanel \<in> set (tl (traverse exampleRoot))
   \<and> minDim flatPanel = 0
   \<and> flatPanel \<in> set (objectsToProcessForDraggability exampleRoot
                 DRAGGABLE_MAX_DIMENSION DRAGGABLE_MIN_DIMENSION)"
proof -
  have a: "unitOfExtents ''cube'' 0.3 0.3 0.3 \<in> set (tl (traverse exampleRoot))"
    by (simp add: exampleRoot_def unitOfExtents_def flatPanel_def)
  have b: "flatPanel \<in> set (tl (traverse exampleRoot))"
    by (simp add: exampleRoot_def unitOfExtents_def flatPanel_def)
  have c: "(nodeIsMesh (unitOfExtents ''cube'' 0.3 0.3 0.3)
            \<or> nodeIsGroup (unitOfExtents ''cube'' 0.3 0.3 0.3))
     \<and> containsMesh (unitOfExtents ''cube'' 0.3 0.3 0.3)
     \<and> \<not> isEmpty (setFromObject (unitOfExtents ''cube'' 0.3 0.3 0.3))
     \<and> \<not> isSinglePoint (setFromObject (unitOfExtents ''cube'' 0.3 0.3 0.3))
     \<and> maxDim (unitOfExtents ''cube'' 0.3 0.3 0.3) \<le> 1.2
     \<and> minDim (unitOfExtents ''cube'' 0.3 0.3 0.3) \<ge> 0.1"
    by (simp add: classifier_defs vec_ops)
  have d: "nodeIsMesh flatPanel \<and> nodeIs2DPanel flatPanel \<and> minDim flatPanel = 0"
    by (simp add: classifier_defs vec_ops)
  from candidate_rule [of exampleRoot] a b c d show ?thesis by blast
qed

text \<open>
  The unit with extents (0.3, 0.3, 0.05) contains a mesh and its largest extent is below
  1.2, yet the first pass with thresholds 1.2 and 0.1 does not select it: its smallest
  extent is below 0.1.
\<close>

theorem thin_unit_counterexample:
  "getSize (setFromObject (unitOfExtents ''thin'' 0.3 0.3 0.05)) = vec 0.3 0.3 0.05
   \<and> containsMesh (unitOfExtents ''thin'' 0.3 0.3 0.05)
   \<and> maxDim (unitOfExtents ''thin'' 0.3 0.3 0.05) \<le> 1.2
   \<and> unitOfExtents ''thin'' 0.3 0.3 0.05
       \<notin> set (objectsToProcessForDraggability exampleRoot 1.2 0.1)"
  by (simp add: objectsToProcessForDraggability_def exampleRoot_def classifier_defs vec_ops)

subsection \<open>Shadow coverage\<close>

lemma anyCastsShadow_iff: "anyCastsShadow os hs \<longleftrightarrow> (\<exists>h \<in> set hs. castShadow (os h))"
  by (induction hs) auto

lemma vlength_along_z: "vlength \<lparr>vx = 0, vy = 0, vz = z\<rparr> = \<bar>z\<bar>"
  by (simp add: vlength_def lengthSq_def)

lemma example_sample_point:
  "pointOnTriangle exampleThree exampleState 6 examplePositions None 0 0 0 = Some (vec 1 0 0)"
  by (simp add: pointOnTriangle_def fromBufferAttribute_def example_defs vec_ops)

lemma example_shadow_ray:
  "shadowRay exampleState (Some (vec 1 0 0))
     = \<lparr>origin = Some (vec 1 0 0.005), direction = vec 0 0 1\<rparr>"
  by (simp add: shadowRay_def lightDirection_def example_defs vec_ops)

lemma single_triangle_geometry: "trianglesOf (\<lambda>v. v) [a, b, c] None = [Triangle a b c]"
  by (simp add: trianglesOf_def makeTriangle_def fromBufferAttribute_def)

lemmas ray_ops = vec_def addVectors_def subVectors_def multiplyScalar_def dot_def crossVectors_def

lemma hit_cover:
  "1 / 200 < z \<Longrightarrow> checkIntersection FrontSide (vec 1 0 (1 / 200)) (vec 0 0 1)
     (Triangle (vec 0 (- 1) z) (vec 1 2 z) (vec 2 (- 1) z)) = Some (z - 1 / 200)"
  by (simp add: checkIntersection_def intersectTriangle_def Let_def ray_ops vlength_along_z)

lemma hit_panel:
  "checkIntersection DoubleSide (vec 1 0 (1 / 200)) (vec 0 0 1)
     (Triangle (vec 1 0 0) (vec (- 1) 1 0) (vec 0 (- 1) 0)) = None"
  by (simp add: checkIntersection_def intersectTriangle_def Let_def ray_ops)

lemma raycast_meshes:
  "raycastMesh exampleSide (objects exampleState) exampleRay 6 = []"
  "raycastMesh exampleSide (objects exampleState) exampleRay 7 = [(0.295, 7)]"
  "raycastMesh exampleSide (objects exampleState) exampleRay 8 = [(0.595, 8)]"
  by (simp_all add: raycastMesh_def exampleRay_def exampleState_def exampleObjects_def
        exampleMesh_def emptyObject_def exampleSide_def examplePositions_def coverAt_def
        single_triangle_geometry hit_cover hit_panel List.map_filter_simps)

lemma raycast_others:
  "raycastMesh exampleSide (objects exampleState) exampleRay (Suc 0) = []"
  "raycastMesh exampleSide (objects exampleState) exampleRay 2 = []"
  "raycastMesh exampleSide (objects exampleState) exampleRay 3 = []"
  "raycastMesh exampleSide (objects exampleState) exampleRay 4 = []"
  "raycastMesh exampleSide (objects exampleState) exampleRay 5 = []"
  by (simp_all add: raycastMesh_def exampleState_def exampleObjects_def emptyObject_def)

lemma example_children:
  "children (objects exampleState (Suc 0)) = [4]"
  "children (objects exampleState 2) = []"
  "children (objects exampleState 3) = [5]"
  "children (objects exampleState 4) = []"
  "children (objects exampleState 5) = [6, 7, 8]"
  "children (objects exampleState 6) = []"
  "children (objects exampleState 7) = []"
  "children (objects exampleState 8) = []"
  by (simp_all add: exampleState_def exampleObjects_def emptyObject_def exampleMesh_def)

lemma example_targets: "shadowTargets exampleState 6 = [1, 2, 3]"
  by (simp add: shadowTargets_def exampleState_def exampleObjects_def emptyObject_def)

lemma intersectObject_0: "intersectObject 0 sideOf os r = raycastMesh sideOf os r"
  by (rule ext) simp

lemma intersectObject_Suc:
  "intersectObject (Suc depth) sideOf os r =
     (\<lambda>object. raycastMesh sideOf os r object
        @ concat (map (intersectObject depth sideOf os r) (children (os object))))"
  by (rule ext) simp

lemma intersectObject_3:
  "intersectObject 3 sideOf os r object =
     raycastMesh sideOf os r object
     @ concat (map (\<lambda>c. raycastMesh sideOf os r c
          @ concat (map (\<lambda>d. raycastMesh sideOf os r d
               @ concat (map (raycastMesh sideOf os r) (children (os d))))
             (children (os c))))
        (children (os object)))"
  by (simp add: numeral_3_eq_3 intersectObject_0 intersectObject_Suc)

lemma example_hits:
  "intersectObjects exampleThree (objects exampleState)
     (shadowRay exampleState
        (pointOnTriangle exampleThree exampleState 6 examplePositions None 0 0 0))
     (shadowTargets exampleState 6) = [7, 8]"
  unfolding example_sample_point example_shadow_ray example_targets exampleRay_def [symmetric]
  by (simp add: exampleThree_def raycasterIntersectObjects_def intersectObject_3
        raycast_meshes raycast_others example_children)

text \<open>
  C2, as the code has it. A sample is counted as occluded exactly when some hit of its ray,
  not only the nearest, belongs to an object that casts shadows: the counter of occluded
  samples grows by one for such a sample and stays as it is for any other.
\<close>

theorem sample_occluded_iff_some_hit:
  "(isInShadow lib s object positionAttribute index r0 r1 r2 \<longleftrightarrow>
      (\<exists>h \<in> set (intersectObjects lib (objects s)
                     (shadowRay s (pointOnTriangle lib s object positionAttribute index r0 r1 r2))
                     (shadowTargets s object)).
         castShadow (objects s h)))
   \<and> shadowedSamplesUpTo lib random s object positionAttribute index (Suc i)
       = shadowedSamplesUpTo lib random s object positionAttribute index i
         + (if \<exists>h \<in> set (intersectObjects lib (objects s)
                             (shadowRay s
                                (pointOnTriangle lib s object positionAttribute index
                                   (random (3 * i)) (random (3 * i + 1)) (random (3 * i + 2))))
                             (shadowTargets s object)).
                 castShadow (objects s h)
            then 1 else 0)"
  by (simp add: isInShadow_def Let_def anyCastsShadow_iff)

text \<open>
  In the example scene the ray of the sample at the corner \<open>(1, 0, 0)\<close> of the panel
  meets the wall, which casts shadows: the sample is occluded and the counter is one
  after the first iteration.
\<close>

theorem sample_occluded_iff_some_hit_witness:
  "8 \<in> set (intersectObjects exampleThree (objects exampleState)
              (shadowRay exampleState
                 (pointOnTriangle exampleThree exampleState 6 examplePositions None 0 0 0))
              (shadowTargets exampleState 6))
   \<and> castShadow (objects exampleState 8)
   \<and> isInShadow exampleThree exampleState 6 examplePositions None 0 0 0
   \<and> shadowedSamplesUpTo exampleThree (\<lambda>k. 0) exampleState 6 examplePositions None (Suc 0) = 1"
proof -
  have a: "8 \<in> set (intersectObjects exampleThree (objects exampleState)
              (shadowRay exampleState
                 (pointOnTriangle exampleThree exampleState 6 examplePositions None 0 0 0))
              (shadowTargets exampleState 6))"
    by (simp only: example_hits) simp
  have b: "castShadow (objects exampleState 8)"
    by (simp add: example_defs)
  note t = sample_occluded_iff_some_hit
             [of exampleThree exampleState 6 examplePositions None 0 0 0 "\<lambda>k. 0" 0]
  from a b t [THEN conjunct1]
  have c: "isInShadow exampleThree exampleState 6 examplePositions None 0 0 0" by blast
  from a b have "\<exists>h \<in> set (intersectObjects exampleThree (objects exampleState)
              (shadowRay exampleState
                 (pointOnTriangle exampleThree exampleState 6 examplePositions None 0 0 0))
              (shadowTargets exampleState 6)). castShadow (objects exampleState h)"
    by blast
  with t [THEN conjunct2]
  have d: "shadowedSamplesUpTo exampleThree (\<lambda>k. 0) exampleState 6 examplePositions None
             (Suc 0) = 1"
    by simp
  from a b c d show ?thesis by blast
qed

text \<open>
  In the example scene the nearest hit of that ray is the marker, which casts no shadow,
  and the sample is counted as occluded all the same.
\<close>

theorem nearest_hit_counterexample:
  "intersectObjects exampleThree (objects exampleState)
     (shadowRay exampleState
        (pointOnTriangle exampleThree exampleState 6 examplePositions None 0 0 0))
     (shadowTargets exampleState 6) = [7, 8]
   \<and> \<not> castShadow (objects exampleState 7)
   \<and> isInShadow exampleThree exampleState 6 examplePositions None 0 0 0"
  by (simp add: isInShadow_def Let_def example_hits) (simp add: example_defs)

lemma lengthSq_zero_iff: "lengthSq v = 0 \<longleftrightarrow> vx v = 0 \<and> vy v = 0 \<and> vz v = 0"
proof -
  have "vx v * vx v + vy v * vy v + vz v * vz v = 0 \<longleftrightarrow> vx v = 0 \<and> vy v = 0 \<and> vz v = 0"
    by (smt (verit) mult_eq_0_iff zero_le_square add_nonneg_eq_0_iff add_nonneg_nonneg)
  then show ?thesis by (simp add: lengthSq_def)
qed

lemma lengthSq_nonneg: "0 \<le> lengthSq v"
  by (simp add: lengthSq_def)

lemma vlength_pos: "a \<noteq> b \<Longrightarrow> 0 < vlength (subVectors a b)"
proof -
  assume "a \<noteq> b"
  then have "\<not> (vx a = vx b \<and> vy a = vy b \<and> vz a = vz b)"
    by (cases a, cases b) auto
  then have "lengthSq (subVectors a b) \<noteq> 0"
    by (auto simp: lengthSq_zero_iff subVectors_def vec_def)
  with lengthSq_nonneg [of "subVectors a b"] have "0 < lengthSq (subVectors a b)" by linarith
  then show ?thesis by (simp add: vlength_def)
qed

lemma negate_scaled_difference:
  "negate (multiplyScalar (subVectors a b) k) = multiplyScalar (subVectors b a) k"
  by (simp add: negate_def multiplyScalar_def subVectors_def vec_def algebra_simps)

text \<open>
  C3, as the code has it. The light direction is the position of the light's target minus
  the position of the light, normalized. The origin of a sample's ray is the sampled point
  moved by 0.005 along the negated light direction, the ray's direction is the negated
  light direction, and that direction is a positive multiple of the vector from the target
  to the light whenever the two positions differ.
\<close>

theorem shadow_ray_points_to_light:
  "lightDirection s = normalize (subVectors (position (objects s (directionalLightTarget s)))
                                            (position (objects s (directionalLight s))))
   \<and> origin (shadowRay s (Some p))
       = Some (addVectors p (multiplyScalar (negate (lightDirection s)) 0.005))
   \<and> direction (shadowRay s point) = negate (lightDirection s)
   \<and> (position (objects s (directionalLight s)) \<noteq> position (objects s (directionalLightTarget s))
      \<longrightarrow> (\<exists>k > 0. direction (shadowRay s point)
             = multiplyScalar (subVectors (position (objects s (directionalLight s)))
                                          (position (objects s (directionalLightTarget s)))) k))"
proof -
  let ?t = "position (objects s (directionalLightTarget s))"
  let ?l = "position (objects s (directionalLight s))"
  have "\<exists>k > 0. direction (shadowRay s point) = multiplyScalar (subVectors ?l ?t) k" if "?l \<noteq> ?t"
  proof -
    from that have pos: "0 < vlength (subVectors ?t ?l)" using vlength_pos [of ?t ?l] by auto
    have "direction (shadowRay s point)
          = multiplyScalar (subVectors ?l ?t) (1 / vlength (subVectors ?t ?l))"
      using pos by (simp add: shadowRay_def lightDirection_def normalize_def divideScalar_def
          negate_scaled_difference)
    moreover have "0 < 1 / vlength (subVectors ?t ?l)" using pos by simp
    ultimately show ?thesis by blast
  qed
  then show ?thesis by (simp add: shadowRay_def lightDirection_def)
qed

text \<open>
  In the example scene the light is at (0, 0, 1) above its target at the origin: the ray
  of a sample at the origin starts at (0, 0, 0.005) and points up, to the light.
\<close>

theorem shadow_ray_points_to_light_witness:
  "position (objects exampleState (directionalLight exampleState))
     \<noteq> position (objects exampleState (directionalLightTarget exampleState))
   \<and> lightDirection exampleState = vec 0 0 (- 1)
   \<and> origin (shadowRay exampleState (Some (vec 0 0 0))) = Some (vec 0 0 0.005)
   \<and> direction (shadowRay exampleState (Some (vec 0 0 0))) = vec 0 0 1
   \<and> (\<exists>k > 0. direction (shadowRay exampleState (Some (vec 0 0 0)))
         = multiplyScalar
             (subVectors (position (objects exampleState (directionalLight exampleState)))
                (position (objects exampleState (directionalLightTarget exampleState)))) k)"
proof -
  have a: "position (objects exampleState (directionalLight exampleState))
             \<noteq> position (objects exampleState (directionalLightTarget exampleState))"
    by (simp add: example_defs vec_def)
  have b: "lightDirection exampleState = vec 0 0 (- 1)"
    by (simp add: lightDirection_def example_defs vec_ops)
  have c: "origin (shadowRay exampleState (Some (vec 0 0 0))) = Some (vec 0 0 0.005)"
    by (simp add: shadowRay_def b vec_ops)
  have d: "direction (shadowRay exampleState (Some (vec 0 0 0))) = vec 0 0 1"
    by (simp add: shadowRay_def b vec_ops)
  from shadow_ray_points_to_light [of exampleState "vec 0 0 0" "Some (vec 0 0 0)"] a
  have "\<exists>k > 0. direction (shadowRay exampleState (Some (vec 0 0 0)))
         = multiplyScalar
             (subVectors (position (objects exampleState (directionalLight exampleState)))
                (position (objects exampleState (directionalLightTarget exampleState)))) k"
    by blast
  with a b c d show ?thesis by blast
qed

text \<open>
  The light direction of the example scene is not the normalized difference of the
  light's position and the target's position: it is its opposite.
\<close>

theorem light_direction_counterexample:
  "lightDirection exampleState
     \<noteq> normalize (subVectors (position (objects exampleState (directionalLight exampleState)))
                            (position (objects exampleState (directionalLightTarget exampleState))))"
  by (simp add: lightDirection_def example_defs vec_ops)

lemma shadowedSamplesUpTo_le:
  "shadowedSamplesUpTo lib random s object positionAttribute index n \<le> n"
  by (induction n) (auto simp: Let_def)

lemma decimalDigits_nonempty: "decimalDigits n \<noteq> []"
  by (subst decimalDigits.simps) simp

lemma floor_half: "\<lfloor>real k + 1 / 2\<rfloor> = int k"
  by linarith

lemma toFixed_tenths:
  "toFixed 1 (real k / 10) = decimalDigits (k div 10) @ ''.'' @ [digitChar (k mod 10)]"
proof -
  have n: "nat \<lfloor>real k / 10 * 10 ^ 1 + 1 / 2\<rfloor> = k"
    using floor_half [of k] by simp
  show ?thesis
  proof (cases "k < 10")
    case True
    then have "decimalDigits k = [digitChar k]" "decimalDigits (k div 10) = [digitChar 0]"
      by (simp_all add: decimalDigits.simps)
    then show ?thesis using True
      by (simp add: toFixed_def toFixedAbs_def n Let_def digitChar_def)
  next
    case False
    then have d: "decimalDigits k = decimalDigits (k div 10) @ [digitChar (k mod 10)]"
      by (subst decimalDigits.simps) simp
    have "length (decimalDigits (k div 10)) \<noteq> 0"
      using decimalDigits_nonempty by simp
    then show ?thesis
      by (simp add: toFixed_def toFixedAbs_def n Let_def d)
  qed
qed

lemma coverage_tenths: "coveragePercentage k = real k / 10"
  by (simp add: coveragePercentage_def totalSamples_def)

text \<open>
  C8. When the argument is absent, is not a mesh, has no geometry or has a geometry
  without a position attribute, \<open>calculateShadowCoverage\<close> returns the number 0. On every
  other input it returns a string: the coverage, \<open>k / 10\<close> for the number \<open>k \<le> 1000\<close> of
  occluded samples, hence between 0 and 100, written with one decimal digit.
\<close>

theorem shadow_coverage_value:
  "(\<not> samplable s object \<longrightarrow> calculateShadowCoverage lib random s object = Number 0)
   \<and> (samplable s object \<longrightarrow>
        (\<exists>k \<le> 1000. calculateShadowCoverage lib random s object
                       = String (toFixed 1 (real k / 10))
                   \<and> toFixed 1 (real k / 10)
                       = decimalDigits (k div 10) @ ''.'' @ [digitChar (k mod 10)]
                   \<and> 0 \<le> real k / 10 \<and> real k / 10 \<le> 100))"
proof (intro conjI impI)
  assume "\<not> samplable s object"
  then show "calculateShadowCoverage lib random s object = Number 0"
    by (auto simp: samplable_def calculateShadowCoverage_def split: option.splits)
next
  assume "samplable s object"
  then obtain obj g pos where o: "object = Some obj" "isMesh (objects s obj)"
    "geometry (objects s obj) = Some g" "attributePosition g = Some pos"
    by (auto simp: samplable_def split: option.splits)
  let ?k = "shadowedSamplesUpTo lib random s obj pos (attributeIndex g) totalSamples"
  have k: "?k \<le> 1000"
    using shadowedSamplesUpTo_le [of lib random s obj pos "attributeIndex g" totalSamples]
    by (simp add: totalSamples_def)
  have "calculateShadowCoverage lib random s object = String (toFixed 1 (real ?k / 10))"
    using o by (simp add: calculateShadowCoverage_def coverage_tenths)
  moreover have "real ?k / 10 \<le> 100" using k by simp
  ultimately show "\<exists>k \<le> 1000. calculateShadowCoverage lib random s object
                       = String (toFixed 1 (real k / 10))
                   \<and> toFixed 1 (real k / 10)
                       = decimalDigits (k div 10) @ ''.'' @ [digitChar (k mod 10)]
                   \<and> 0 \<le> real k / 10 \<and> real k / 10 \<le> 100"
    using k toFixed_tenths by (intro exI [of _ ?k]) simp
qed

theorem shadow_coverage_value_witness:
  "samplable exampleState (Some 6) \<and> \<not> samplable exampleState (Some 5)
   \<and> \<not> samplable exampleState None
   \<and> calculateShadowCoverage exampleThree (\<lambda>k. 0) exampleState (Some 5) = Number 0
   \<and> calculateShadowCoverage exampleThree (\<lambda>k. 0) exampleState None = Number 0
   \<and> (\<exists>k \<le> 1000. calculateShadowCoverage exampleThree (\<lambda>k. 0) exampleState (Some 6)
                       = String (toFixed 1 (real k / 10))
                   \<and> toFixed 1 (real k / 10)
                       = decimalDigits (k div 10) @ ''.'' @ [digitChar (k mod 10)]
                   \<and> 0 \<le> real k / 10 \<and> real k / 10 \<le> 100)"
proof -
  have a: "samplable exampleState (Some 6)"
    by (simp add: samplable_def example_defs)
  have b: "\<not> samplable exampleState (Some 5)"
    by (simp add: samplable_def example_defs)
  have c: "\<not> samplable exampleState None"
    by (simp add: samplable_def)
  from a b c shadow_coverage_value [of exampleState "Some 6" exampleThree "\<lambda>k. 0"]
    shadow_coverage_value [of exampleState "Some 5" exampleThree "\<lambda>k. 0"]
    shadow_coverage_value [of exampleState None exampleThree "\<lambda>k. 0"]
  show ?thesis by blast
qed

subsection \<open>Panel validation\<close>

text \<open>
  C4, as the code has it. When the first three points pass the collinearity test, the
  validator rejects the input as off-plane, with the suggestion \<open>c\<close>, exactly when the
  absolute value of \<open>dot(p4 - p1, normal)\<close> exceeds 0.01 and \<open>c\<close> is \<open>p4\<close> minus the normal
  scaled by that distance; \<open>normal\<close> is the normalized cross product of \<open>p2 - p1\<close> and
  \<open>p3 - p1\<close>.
\<close>

theorem off_plane_rejection:
  assumes "\<not> lengthSq (crossVectors (subVectors p2 p1) (subVectors p3 p1))
               < COLLINEARITY_EPSILON_SQ"
  shows "(panelChecks p1 p2 p3 p4 = FourthPointOffPlane c) \<longleftrightarrow>
         (\<bar>dot (subVectors p4 p1)
              (normalize (crossVectors (subVectors p2 p1) (subVectors p3 p1)))\<bar> > 0.01
          \<and> c = subVectors p4
                  (multiplyScalar (normalize (crossVectors (subVectors p2 p1) (subVectors p3 p1)))
                     (dot (subVectors p4 p1)
                        (normalize (crossVectors (subVectors p2 p1) (subVectors p3 p1))))))"
  using assms unfolding panelChecks_def Let_def EPSILON_def by auto

text \<open>
  The points (0,0,0), (1,0,0), (1,1,0) with the fourth point (0,1,5): rejected, and the
  suggestion is (0,1,0).
\<close>

theorem off_plane_rejection_witness:
  "\<not> lengthSq (crossVectors (subVectors (vec 1 0 0) (vec 0 0 0))
                 (subVectors (vec 1 1 0) (vec 0 0 0))) < COLLINEARITY_EPSILON_SQ
   \<and> panelChecks (vec 0 0 0) (vec 1 0 0) (vec 1 1 0) (vec 0 1 5)
       = FourthPointOffPlane (vec 0 1 0)"
proof -
  have h: "\<not> lengthSq (crossVectors (subVectors (vec 1 0 0) (vec 0 0 0))
                 (subVectors (vec 1 1 0) (vec 0 0 0))) < COLLINEARITY_EPSILON_SQ"
    by (simp add: vec_ops COLLINEARITY_EPSILON_SQ_def)
  have r: "\<bar>dot (subVectors (vec 0 1 5) (vec 0 0 0))
              (normalize (crossVectors (subVectors (vec 1 0 0) (vec 0 0 0))
                 (subVectors (vec 1 1 0) (vec 0 0 0))))\<bar> > 0.01
     \<and> vec 0 1 0 = subVectors (vec 0 1 5)
          (multiplyScalar (normalize (crossVectors (subVectors (vec 1 0 0) (vec 0 0 0))
                 (subVectors (vec 1 1 0) (vec 0 0 0))))
             (dot (subVectors (vec 0 1 5) (vec 0 0 0))
                (normalize (crossVectors (subVectors (vec 1 0 0) (vec 0 0 0))
                   (subVectors (vec 1 1 0) (vec 0 0 0))))))"
    by (simp add: vec_ops)
  from off_plane_rejection [OF h, THEN iffD2, OF r] h show ?thesis by simp
qed

text \<open>
  With the fourth point (2,2,0) the first three points are not collinear and the fourth
  lies in their plane, yet the input is rejected: by the third check.
\<close>

theorem rejected_though_coplanar_counterexample:
  "\<not> lengthSq (crossVectors (subVectors (vec 1 0 0) (vec 0 0 0))
                 (subVectors (vec 1 1 0) (vec 0 0 0))) < COLLINEARITY_EPSILON_SQ
   \<and> \<not> \<bar>dot (subVectors (vec 2 2 0) (vec 0 0 0))
              (normalize (crossVectors (subVectors (vec 1 0 0) (vec 0 0 0))
                 (subVectors (vec 1 1 0) (vec 0 0 0))))\<bar> > 0.01
   \<and> panelChecks (vec 0 0 0) (vec 1 0 0) (vec 1 1 0) (vec 2 2 0) = DegenerateSecondTriangle"
  by (simp add: panelChecks_def vec_ops EPSILON_def COLLINEARITY_EPSILON_SQ_def)

text \<open>
  C7. When the four points are numbers and one of the three checks fails (collinear first
  triple, off-plane fourth point, degenerate alternate triangle), \<open>addObjectToScene\<close>
  shows the failure and returns with the state as it was: no mesh is created, and the
  scene graph, the set of draggable objects and the pivot-offset cache are unchanged.
\<close>

theorem failed_validation_changes_nothing:
  assumes "parsePoint c1 = Some q1" "parsePoint c2 = Some q2"
          "parsePoint c3 = Some q3" "parsePoint c4 = Some q4"
      and "panelChecks (applyInverseBaseModelWorldMatrix lib (objects s) q1)
             (applyInverseBaseModelWorldMatrix lib (objects s) q2)
             (applyInverseBaseModelWorldMatrix lib (objects s) q3)
             (applyInverseBaseModelWorldMatrix lib (objects s) q4) = failure"
      and "failure = FirstThreeCollinear \<or> (\<exists>c. failure = FourthPointOffPlane c)
           \<or> failure = DegenerateSecondTriangle"
  shows "addObjectToScene lib (c1, c2, c3, c4) s = (ValidationFailed failure, s)
       \<and> objects (snd (addObjectToScene lib (c1, c2, c3, c4) s)) = objects s
       \<and> nextRef (snd (addObjectToScene lib (c1, c2, c3, c4) s)) = nextRef s
       \<and> draggableObjects (snd (addObjectToScene lib (c1, c2, c3, c4) s)) = draggableObjects s
       \<and> localPivotToBBoxCenterOffsets (snd (addObjectToScene lib (c1, c2, c3, c4) s))
           = localPivotToBBoxCenterOffsets s"
proof -
  have "addObjectToScene lib (c1, c2, c3, c4) s = (ValidationFailed failure, s)"
    using assms by (cases failure) (auto simp: addObjectToScene_def Let_def)
  then show ?thesis by simp
qed

theorem failed_validation_changes_nothing_witness:
  "addObjectToScene exampleThree
     (numericInput 0 0 0, numericInput 1 0 0, numericInput 1 1 0, numericInput 0 1 5)
     exampleState
   = (ValidationFailed (FourthPointOffPlane (vec 0 1 0)), exampleState)"
proof -
  have p: "parsePoint (numericInput 0 0 0) = Some (vec 0 0 0)"
          "parsePoint (numericInput 1 0 0) = Some (vec 1 0 0)"
          "parsePoint (numericInput 1 1 0) = Some (vec 1 1 0)"
          "parsePoint (numericInput 0 1 5) = Some (vec 0 1 5)"
    by (simp_all add: numericInput_def)
  have c: "panelChecks
             (applyInverseBaseModelWorldMatrix exampleThree (objects exampleState) (vec 0 0 0))
             (applyInverseBaseModelWorldMatrix exampleThree (objects exampleState) (vec 1 0 0))
             (applyInverseBaseModelWorldMatrix exampleThree (objects exampleState) (vec 1 1 0))
             (applyInverseBaseModelWorldMatrix exampleThree (objects exampleState) (vec 0 1 5))
           = FourthPointOffPlane (vec 0 1 0)"
    by (simp add: exampleThree_def panelChecks_def vec_ops EPSILON_def
          COLLINEARITY_EPSILON_SQ_def)
  have f: "FourthPointOffPlane (vec 0 1 0) = FirstThreeCollinear
           \<or> (\<exists>c. FourthPointOffPlane (vec 0 1 0) = FourthPointOffPlane c)
           \<or> FourthPointOffPlane (vec 0 1 0) = DegenerateSecondTriangle"
    by simp
  from failed_validation_changes_nothing [OF p c f] show ?thesis by simp
qed

subsection \<open>Deleting the selected object\<close>

text \<open>
  C10. When an object is selected and the user confirms, \<open>deleteSelectedObject\<close> leaves
  that object neither in the set of draggable objects nor in the pivot-offset cache.
\<close>

theorem delete_cleans_up:
  assumes "intersectedObject s = Some obj"
  shows "obj \<notin> draggableObjects (deleteSelectedObject True s)
       \<and> localPivotToBBoxCenterOffsets (deleteSelectedObject True s) obj = None"
  using assms
  by (simp add: deleteSelectedObject_def Let_def hideCoordPopup_def hideShadowCoveragePopup_def
        restoreOriginalMaterials_def split: option.split)

theorem delete_cleans_up_witness:
  "intersectedObject exampleState = Some 6 \<and> 6 \<in> draggableObjects exampleState
   \<and> localPivotToBBoxCenterOffsets exampleState 6 \<noteq> None
   \<and> 6 \<notin> draggableObjects (deleteSelectedObject True exampleState)
   \<and> localPivotToBBoxCenterOffsets (deleteSelectedObject True exampleState) 6 = None"
proof -
  have h: "intersectedObject exampleState = Some 6" by (simp add: exampleState_def)
  from delete_cleans_up [OF h] show ?thesis by (simp add: exampleState_def)
qed

subsection \<open>Grouping of triangles\<close>

lemma scanOthers_shape:
  "scanOthers triangles i js used grp = (grp', used') \<Longrightarrow>
   \<exists>new. grp' = grp @ new \<and> used' = used \<union> set new \<and> set new \<subseteq> set js - used
         \<and> (distinct js \<longrightarrow> distinct new)
         \<and> (\<forall>j \<in> set new. joinsFace (triangles ! i) (triangles ! j))"
proof (induction js arbitrary: used grp)
  case Nil
  then show ?case by simp
next
  case (Cons j js)
  show ?case
  proof (cases "j \<in> used")
    case True
    with Cons.prems have "scanOthers triangles i js used grp = (grp', used')" by simp
    from Cons.IH [OF this] show ?thesis by auto
  next
    case False
    show ?thesis
    proof (cases "joinsFace (triangles ! i) (triangles ! j)")
      case True
      with False Cons.prems
      have "scanOthers triangles i js (insert j used) (grp @ [j]) = (grp', used')" by simp
      from Cons.IH [OF this] obtain new where
        n: "grp' = (grp @ [j]) @ new" "used' = insert j used \<union> set new"
           "set new \<subseteq> set js - insert j used" "distinct js \<longrightarrow> distinct new"
           "\<forall>j \<in> set new. joinsFace (triangles ! i) (triangles ! j)"
        by blast
      have "grp' = grp @ (j # new)" using n by simp
      moreover have "used' = used \<union> set (j # new)" using n by auto
      moreover have "set (j # new) \<subseteq> set (j # js) - used" using n False by auto
      moreover have "distinct (j # js) \<longrightarrow> distinct (j # new)" using n by auto
      moreover have "\<forall>k \<in> set (j # new). joinsFace (triangles ! i) (triangles ! k)"
        using n True by simp
      ultimately show ?thesis by blast
    next
      case nj: False
      with False Cons.prems have "scanOthers triangles i js used grp = (grp', used')" by simp
      from Cons.IH [OF this] show ?thesis by auto
    qed
  qed
qed

lemma groupFrom_partition:
  "n = length triangles \<Longrightarrow> m = n - k \<Longrightarrow>
   set (concat (groupFrom triangles [k ..< n] used)) = {k ..< n} - used
   \<and> distinct (concat (groupFrom triangles [k ..< n] used))
   \<and> (\<forall>g \<in> set (groupFrom triangles [k ..< n] used).
         g \<noteq> [] \<and> (\<forall>j \<in> set (tl g). hd g < j \<and> joinsFace (triangles ! hd g) (triangles ! j)))"
proof (induction m arbitrary: k used)
  case 0
  then show ?case by simp
next
  case (Suc m)
  then have kn: "k < n" and m: "m = n - Suc k" by auto
  have upt: "[k ..< n] = k # [Suc k ..< n]" using kn by (simp add: upt_conv_Cons)
  note IH = Suc.IH [OF Suc.prems(1) m]
  show ?case
  proof (cases "k \<in> used")
    case True
    then have "groupFrom triangles [k ..< n] used = groupFrom triangles [Suc k ..< n] used"
      by (simp add: upt)
    moreover have "{k ..< n} - used = {Suc k ..< n} - used"
    proof -
      have "{k ..< n} = insert k {Suc k ..< n}" using kn by auto
      then show ?thesis using True by auto
    qed
    ultimately show ?thesis using IH [of used] by simp
  next
    case False
    obtain grp used' where
      sc: "scanOthers triangles k [Suc k ..< n] (insert k used) [k] = (grp, used')"
      by (cases "scanOthers triangles k [Suc k ..< n] (insert k used) [k]") auto
    from scanOthers_shape [OF sc] obtain new where
      n: "grp = [k] @ new" "used' = insert k used \<union> set new"
         "set new \<subseteq> set [Suc k ..< n] - insert k used" "distinct new"
         "\<forall>j \<in> set new. joinsFace (triangles ! k) (triangles ! j)"
      by auto
    have sc': "scanOthers triangles k [Suc k ..< length triangles] (insert k used) [k]
               = (grp, used')"
      using sc Suc.prems(1) by simp
    have "groupFrom triangles (k # [Suc k ..< n]) used
             = (k # new) # groupFrom triangles [Suc k ..< n] used'"
      using False sc' n(1) by simp
    then have g: "groupFrom triangles [k ..< n] used
             = (k # new) # groupFrom triangles [Suc k ..< n] used'"
      using upt by simp
    let ?rest = "groupFrom triangles [Suc k ..< n] used'"
    from IH [of used'] have
      r: "set (concat ?rest) = {Suc k ..< n} - used'" "distinct (concat ?rest)"
         "\<forall>g \<in> set ?rest. g \<noteq> [] \<and>
            (\<forall>j \<in> set (tl g). hd g < j \<and> joinsFace (triangles ! hd g) (triangles ! j))"
      by auto
    have s: "set (concat ((k # new) # ?rest)) = {k ..< n} - used"
      using r(1) n(2,3) False kn by auto
    have d: "distinct (concat ((k # new) # ?rest))"
      using r(1,2) n(2,3,4) by auto
    have h: "\<forall>j \<in> set new. k < j" using n(3) by auto
    show ?thesis unfolding g using s d r(3) h n(5) by simp
  qed
qed

lemma in_one_group:
  assumes d: "distinct (concat gs)" and "a < length gs" "b < length gs"
      and "x \<in> set (gs ! a)" "x \<in> set (gs ! b)"
  shows "a = b"
  using assms
proof (induction gs arbitrary: a b)
  case Nil
  then show ?case by simp
next
  case (Cons g gs)
  show ?case
  proof (cases a)
    case 0
    show ?thesis
    proof (cases b)
      case 0
      with \<open>a = 0\<close> show ?thesis by simp
    next
      case (Suc b')
      with Cons.prems 0 have "x \<in> set g" "x \<in> set (gs ! b')" "b' < length gs" by auto
      then have "x \<in> set g \<inter> set (concat gs)" by (auto intro: nth_mem)
      with Cons.prems(1) show ?thesis by auto
    qed
  next
    case (Suc a')
    show ?thesis
    proof (cases b)
      case 0
      with Cons.prems Suc have "x \<in> set g" "x \<in> set (gs ! a')" "a' < length gs" by auto
      then have "x \<in> set g \<inter> set (concat gs)" by (auto intro: nth_mem)
      with Cons.prems(1) show ?thesis by auto
    next
      case (Suc b')
      with Cons.prems \<open>a = Suc a'\<close> have "a' = b'"
        by (intro Cons.IH) auto
      with Suc \<open>a = Suc a'\<close> show ?thesis by simp
    qed
  qed
qed

text \<open>
  C9. The grouping phase partitions the triangle indices: no index occurs twice in the
  groups taken together, every index occurs, so every triangle is in exactly one group;
  each group starts with its seed, and every other member has a larger index than the seed
  and passed the merge test against it.
\<close>

theorem grouping_partitions_triangles:
  "distinct (concat (groupTriangles triangles))
   \<and> set (concat (groupTriangles triangles)) = {0 ..< length triangles}
   \<and> (\<forall>t < length triangles.
         \<exists>!k. k < length (groupTriangles triangles) \<and> t \<in> set (groupTriangles triangles ! k))
   \<and> (\<forall>g \<in> set (groupTriangles triangles).
         g \<noteq> [] \<and> (\<forall>j \<in> set (tl g). hd g < j \<and> joinsFace (triangles ! hd g) (triangles ! j)))"
proof -
  let ?gs = "groupTriangles triangles"
  from groupFrom_partition [of "length triangles" triangles "length triangles" 0 "{}"]
  have p: "set (concat ?gs) = {0 ..< length triangles}" "distinct (concat ?gs)"
    "\<forall>g \<in> set ?gs. g \<noteq> [] \<and>
        (\<forall>j \<in> set (tl g). hd g < j \<and> joinsFace (triangles ! hd g) (triangles ! j))"
    by (auto simp: groupTriangles_def)
  have "\<exists>!k. k < length ?gs \<and> t \<in> set (?gs ! k)" if "t < length triangles" for t
  proof -
    from that p(1) have "t \<in> set (concat ?gs)" by simp
    then obtain g where "g \<in> set ?gs" "t \<in> set g" by auto
    then obtain k where "k < length ?gs" "t \<in> set (?gs ! k)"
      by (auto simp: in_set_conv_nth)
    then show ?thesis using in_one_group [OF p(2)] by blast
  qed
  with p show ?thesis by blast
qed

lemma vec_sel: "vx (vec x y z) = x" "vy (vec x y z) = y" "vz (vec x y z) = z"
  by (simp_all add: vec_def)

lemma upt_4: "[0 ..< 4] = [0, 1, 2, 3]" "[Suc 0 ..< 4] = [1, 2, 3]"
  by (simp_all add: upt_rec)

lemma diamond_normals:
  "getNormal (vec 0 0 0) (vec 1 0 0) (vec 0 1 0) = vec 0 0 1"
  "getNormal (vec 0 0 0) (vec 0 1 0) (vec (- 1) 0 0) = vec 0 0 1"
  "getNormal (vec 0 0 0) (vec (- 1) 0 0) (vec 0 (- 1) 0) = vec 0 0 1"
  "getNormal (vec 0 0 0) (vec 0 (- 1) 0) (vec 1 0 0) = vec 0 0 1"
  by (simp_all add: getNormal_def vec_ops Let_def)

lemma diamond_plane:
  "setFromCoplanarPoints (vec 0 0 0) (vec 1 0 0) (vec 0 1 0)
     = \<lparr>normalOfPlane = vec 0 0 1, constantOfPlane = 0\<rparr>"
  by (simp add: setFromCoplanarPoints_def vec_ops Let_def)

lemma diamond_joins:
  "joinsFace (diamondTriangles ! 0) (diamondTriangles ! 1)"
  "joinsFace (diamondTriangles ! 0) (diamondTriangles ! 2)"
  "joinsFace (diamondTriangles ! 0) (diamondTriangles ! 3)"
  by (simp_all add: diamondTriangles_def joinsFace_def diamond_normals diamond_plane distanceToPoint_def
        coplanarTolerance_def dot_def vec_sel)

lemma diamond_groups: "groupTriangles diamondTriangles = [[0, 1, 2, 3]]"
proof -
  have l: "length diamondTriangles = 4" by (simp add: diamondTriangles_def)
  show ?thesis
    using diamond_joins by (simp add: groupTriangles_def l upt_4)
qed

text \<open>
  The diamond: its four triangles form one group, the triangle with index 2 is in a group,
  and the triangle with index 3 comes after the seed and passed the merge test against it.
\<close>

theorem grouping_partitions_triangles_witness:
  "2 < length diamondTriangles
   \<and> groupTriangles diamondTriangles = [[0, 1, 2, 3]]
   \<and> distinct (concat (groupTriangles diamondTriangles))
   \<and> (\<exists>k. k < length (groupTriangles diamondTriangles) \<and> 2 \<in> set (groupTriangles diamondTriangles ! k))
   \<and> [0, 1, 2, 3] \<in> set (groupTriangles diamondTriangles)
   \<and> (3 :: nat) \<in> set (tl [0, 1, 2, 3])
   \<and> hd [0, 1, 2, 3] < (3 :: nat)
   \<and> joinsFace (diamondTriangles ! hd [0, 1, 2, 3]) (diamondTriangles ! 3)"
proof -
  have l: "2 < length diamondTriangles" by (simp add: diamondTriangles_def)
  have m: "[0, 1, 2, 3] \<in> set (groupTriangles diamondTriangles)" by (simp add: diamond_groups)
  have t: "3 \<in> set (tl [0, 1, 2, 3 :: nat])" by simp
  note T = grouping_partitions_triangles [of diamondTriangles]
  from T have d: "distinct (concat (groupTriangles diamondTriangles))" by (rule conjunct1)
  from T l have "\<exists>!k. k < length (groupTriangles diamondTriangles)
                    \<and> 2 \<in> set (groupTriangles diamondTriangles ! k)"
    by blast
  then have e: "\<exists>k. k < length (groupTriangles diamondTriangles)
                    \<and> 2 \<in> set (groupTriangles diamondTriangles ! k)"
    by blast
  from T have "\<forall>g \<in> set (groupTriangles diamondTriangles).
         g \<noteq> [] \<and> (\<forall>j \<in> set (tl g). hd g < j
             \<and> joinsFace (diamondTriangles ! hd g) (diamondTriangles ! j))"
    by blast
  with m t have h: "hd [0, 1, 2, 3] < (3 :: nat)
                    \<and> joinsFace (diamondTriangles ! hd [0, 1, 2, 3]) (diamondTriangles ! 3)"
    by blast
  from h have h1: "hd [0, 1, 2, 3] < (3 :: nat)"
    and h2: "joinsFace (diamondTriangles ! hd [0, 1, 2, 3]) (diamondTriangles ! 3)"
    by blast+
  show ?thesis
    by (intro conjI l diamond_groups d e m t h1 h2)
qed


subsection \<open>Area of a merged face\<close>

lemma scanOthers_all_join:
  "\<forall>j \<in> set js. joinsFace (triangles ! i) (triangles ! j) \<Longrightarrow> distinct js \<Longrightarrow>
   set js \<inter> used = {} \<Longrightarrow>
   scanOthers triangles i js used grp = (grp @ js, used \<union> set js)"
proof (induction js arbitrary: used grp)
  case Nil
  then show ?case by simp
next
  case (Cons j js)
  then have "scanOthers triangles i js (insert j used) (grp @ [j])
             = ((grp @ [j]) @ js, insert j used \<union> set js)"
    by (intro Cons.IH) auto
  with Cons.prems show ?case by auto
qed

lemma groupFrom_all_used: "set is \<subseteq> used \<Longrightarrow> groupFrom triangles is used = []"
  by (induction "is") auto

lemma single_group:
  assumes "triangles \<noteq> []"
      and "\<forall>j. 0 < j \<and> j < length triangles \<longrightarrow> joinsFace (triangles ! 0) (triangles ! j)"
  shows "groupTriangles triangles = [[0 ..< length triangles]]"
proof -
  let ?n = "length triangles"
  have n: "0 < ?n" using assms(1) by simp
  have upt: "[0 ..< ?n] = 0 # [Suc 0 ..< ?n]" using n by (simp add: upt_conv_Cons)
  have "scanOthers triangles 0 [Suc 0 ..< ?n] (insert 0 {}) [0]
        = ([0] @ [Suc 0 ..< ?n], insert 0 {} \<union> set [Suc 0 ..< ?n])"
    using assms(2) by (intro scanOthers_all_join) auto
  moreover have "groupFrom triangles [Suc 0 ..< ?n] (insert 0 {} \<union> set [Suc 0 ..< ?n]) = []"
    by (intro groupFrom_all_used) auto
  ultimately have "groupFrom triangles (0 # [Suc 0 ..< ?n]) {} = [0 # [Suc 0 ..< ?n]]"
    by simp
  then show ?thesis by (simp add: groupTriangles_def upt [symmetric])
qed

lemma vlength_zero_iff: "vlength v = 0 \<longleftrightarrow> vx v = 0 \<and> vy v = 0 \<and> vz v = 0"
  by (simp add: vlength_def lengthSq_zero_iff)

lemma vlength_nonneg: "0 \<le> vlength v"
  by (simp add: vlength_def lengthSq_nonneg)

lemma unitScale_pos: "0 < unitScale n"
  using vlength_nonneg [of n] by (auto simp: unitScale_def less_le)

lemma normalize_sel:
  "vx (normalize n) = vx n / unitScale n"
  "vy (normalize n) = vy n / unitScale n"
  "vz (normalize n) = vz n / unitScale n"
  by (simp_all add: normalize_def divideScalar_def multiplyScalar_def vec_sel unitScale_def)

lemma abs_normalize_sel:
  "\<bar>vx (normalize n)\<bar> = \<bar>vx n\<bar> / unitScale n"
  "\<bar>vy (normalize n)\<bar> = \<bar>vy n\<bar> / unitScale n"
  "\<bar>vz (normalize n)\<bar> = \<bar>vz n\<bar> / unitScale n"
  using unitScale_pos [of n] by (simp_all add: normalize_sel)

lemma shoelace3: "shoelaceSum [a, b, c] = cross2 a b + cross2 b c + cross2 c a"
  by (simp add: shoelaceSum_def)

lemma scaled_component:
  assumes "\<bar>k\<bar> / unitScale n = 0 \<longrightarrow> vlength n = 0" "k \<noteq> 0 \<longrightarrow> vlength n \<noteq> 0"
  shows "(if \<bar>k\<bar> / unitScale n = 0 then \<bar>k\<bar> / 2 else \<bar>k\<bar> / 2 * (1 / (\<bar>k\<bar> / unitScale n)))
         = vlength n / 2"
proof (cases "k = 0")
  case True
  with assms show ?thesis by simp
next
  case False
  with assms have "vlength n \<noteq> 0" by simp
  then have "unitScale n = vlength n" by (simp add: unitScale_def)
  with False unitScale_pos [of n] show ?thesis by simp
qed

text \<open>
  For three vertices the projected shoelace area, rescaled by the dominant component of
  the unit normal, is half the length of the cross product of two edges.
\<close>

lemma triangle_polygon_area:
  "calculatePolygonArea [p, q, r]
     = vlength (crossVectors (subVectors q p) (subVectors r p)) / 2"
proof -
  define n where "n = crossVectors (subVectors q p) (subVectors r p)"
  have sx: "shoelaceSum [(vy p, vz p), (vy q, vz q), (vy r, vz r)] = vx n"
    and sy: "shoelaceSum [(vx p, vz p), (vx q, vz q), (vx r, vz r)] = - vy n"
    and sz: "shoelaceSum [(vx p, vy p), (vx q, vy q), (vx r, vy r)] = vz n"
    by (simp_all add: shoelace3 cross2_def n_def crossVectors_def subVectors_def vec_sel
          algebra_simps)
  have d: "0 < unitScale n" by (rule unitScale_pos)
  then have d0: "unitScale n \<noteq> 0" by simp
  have cmp: "\<bar>a\<bar> / unitScale n \<le> \<bar>b\<bar> / unitScale n \<longleftrightarrow> \<bar>a\<bar> \<le> \<bar>b\<bar>" for a b :: real
    using d by (simp add: divide_le_cancel)
  have nz: "vlength n = 0 \<longleftrightarrow> vx n = 0 \<and> vy n = 0 \<and> vz n = 0"
    by (rule vlength_zero_iff)
  define A where "A \<longleftrightarrow> \<bar>vx n\<bar> \<ge> \<bar>vy n\<bar> \<and> \<bar>vx n\<bar> \<ge> \<bar>vz n\<bar>"
  define B where "B \<longleftrightarrow> \<bar>vy n\<bar> \<ge> \<bar>vx n\<bar> \<and> \<bar>vy n\<bar> \<ge> \<bar>vz n\<bar>"
  define F where "F k = (if \<bar>k\<bar> / unitScale n = 0 then \<bar>k\<bar> / 2
                         else \<bar>k\<bar> / 2 * (1 / (\<bar>k\<bar> / unitScale n)))" for k :: real
  have c1: "(\<bar>vx (normalize n)\<bar> \<ge> \<bar>vy (normalize n)\<bar>
              \<and> \<bar>vx (normalize n)\<bar> \<ge> \<bar>vz (normalize n)\<bar>) = A"
    by (simp add: abs_normalize_sel cmp A_def)
  have c2: "(\<bar>vy (normalize n)\<bar> \<ge> \<bar>vx (normalize n)\<bar>
              \<and> \<bar>vy (normalize n)\<bar> \<ge> \<bar>vz (normalize n)\<bar>) = B"
    by (simp add: abs_normalize_sel cmp B_def)
  have n1: "[p, q, r] ! 1 = q" "[p, q, r] ! 2 = r" "[p, q, r] ! 0 = p" by simp_all
  have Ex: "calculatePolygonArea [p, q, r] = F (vx n)" if A
    unfolding calculatePolygonArea_def Let_def n1 n_def [symmetric] c1 c2
    using that by (simp add: sx abs_normalize_sel F_def)
  have Ey: "calculatePolygonArea [p, q, r] = F (vy n)" if "\<not> A" B
    unfolding calculatePolygonArea_def Let_def n1 n_def [symmetric] c1 c2
    using that by (simp add: sy abs_normalize_sel F_def)
  have Ez: "calculatePolygonArea [p, q, r] = F (vz n)" if "\<not> A" "\<not> B"
    unfolding calculatePolygonArea_def Let_def n1 n_def [symmetric] c1 c2
    using that by (simp add: sz abs_normalize_sel F_def)
  have E: "calculatePolygonArea [p, q, r]
           = (if A then F (vx n) else if B then F (vy n) else F (vz n))"
    using Ex Ey Ez by auto
  have Fx: "F (vx n) = vlength n / 2" if A
    unfolding F_def using that by (intro scaled_component) (auto simp: d0 nz A_def)
  have Fy: "F (vy n) = vlength n / 2" if B
    unfolding F_def using that by (intro scaled_component) (auto simp: d0 nz B_def)
  have Fz: "F (vz n) = vlength n / 2" if "\<not> A" "\<not> B"
    unfolding F_def using that by (intro scaled_component) (auto simp: d0 nz A_def B_def)
  show ?thesis
    unfolding E n_def [symmetric] using Fx Fy Fz by auto
qed

lemma cross_permuted:
  "crossVectors (subVectors a b) (subVectors c b)
     = negate (crossVectors (subVectors b a) (subVectors c a))"
  "crossVectors (subVectors c b) (subVectors a b)
     = crossVectors (subVectors b a) (subVectors c a)"
  "crossVectors (subVectors c a) (subVectors b a)
     = negate (crossVectors (subVectors b a) (subVectors c a))"
  "crossVectors (subVectors a c) (subVectors b c)
     = crossVectors (subVectors b a) (subVectors c a)"
  "crossVectors (subVectors b c) (subVectors a c)
     = negate (crossVectors (subVectors b a) (subVectors c a))"
  by (simp_all add: crossVectors_def subVectors_def negate_def vec_def algebra_simps)

lemma vlength_negate: "vlength (negate v) = vlength v"
  by (simp add: vlength_def lengthSq_def negate_def vec_sel)

lemma sort_key_three:
  "sort_key f [a, b, c]
     \<in> {[a, b, c], [b, a, c], [b, c, a], [a, c, b], [c, a, b], [c, b, a]}"
  by auto

lemma permuted_triangle_area:
  assumes "ys \<in> {[a, b, c], [b, a, c], [b, c, a], [a, c, b], [c, a, b], [c, b, a]}"
  shows "calculatePolygonArea ys = vlength (crossVectors (subVectors b a) (subVectors c a)) / 2"
proof -
  let ?A = "vlength (crossVectors (subVectors b a) (subVectors c a)) / 2"
  have "calculatePolygonArea [a, b, c] = ?A"
    by (simp only: triangle_polygon_area)
  moreover have "calculatePolygonArea [b, a, c] = ?A"
    by (simp only: triangle_polygon_area cross_permuted(1) [of a b c] vlength_negate)
  moreover have "calculatePolygonArea [b, c, a] = ?A"
    by (simp only: triangle_polygon_area cross_permuted(2) [of c b a])
  moreover have "calculatePolygonArea [a, c, b] = ?A"
    by (simp only: triangle_polygon_area cross_permuted(3) [of c a b] vlength_negate)
  moreover have "calculatePolygonArea [c, a, b] = ?A"
    by (simp only: triangle_polygon_area cross_permuted(4) [of a c b])
  moreover have "calculatePolygonArea [c, b, a] = ?A"
    by (simp only: triangle_polygon_area cross_permuted(5) [of b c a] vlength_negate)
  ultimately show ?thesis using assms by auto
qed

lemma triangleArea_cross:
  "triangleArea (Triangle a b c) = vlength (crossVectors (subVectors b a) (subVectors c a)) / 2"
  unfolding triangleArea_def by (simp add: cross_permuted(2) [of c b a])

lemma unique_vertices_of_triangle:
  assumes "distinct [vertexKey a, vertexKey b, vertexKey c]"
  shows "uniqueVerticesOf [Triangle a b c] = [a, b, c]"
  using assms by (auto simp: uniqueVerticesOf_def triangleVertices_def)

lemma single_triangle_face:
  assumes "distinct [vertexKey a, vertexKey b, vertexKey c]"
      and "0 < triangleArea (Triangle a b c)"
  shows "\<exists>f. facesOfTriangles [Triangle a b c] = [f]
             \<and> faceArea f = triangleArea (Triangle a b c)"
proof -
  let ?us = "sortByAngle (getNormal a b c) [a, b, c]"
  have g: "groupTriangles [Triangle a b c] = [[0]]"
    by (simp add: groupTriangles_def)
  have "?us \<in> {[a, b, c], [b, a, c], [b, c, a], [a, c, b], [c, a, b], [c, b, a]}"
    unfolding sortByAngle_def using sort_key_three [of _ a b c] by simp
  then have ar: "calculatePolygonArea ?us = triangleArea (Triangle a b c)"
    by (simp only: permuted_triangle_area triangleArea_cross)
  have "faceOfGroup [Triangle a b c] [0]
        = Some \<lparr>faceVertices = ?us, faceNormal = getNormal a b c,
                faceArea = triangleArea (Triangle a b c)\<rparr>"
    using assms(2)
    by (simp add: faceOfGroup_def Let_def unique_vertices_of_triangle [OF assms(1)] ar)
  then show ?thesis
    by (simp add: facesOfTriangles_def g List.map_filter_simps)
qed

lemma single_group_faces:
  assumes "groupTriangles triangles = [[0 ..< length triangles]]"
  shows "facesOfTriangles triangles
         = (case faceOfGroup triangles [0 ..< length triangles] of
              None \<Rightarrow> [] | Some f \<Rightarrow> [f])"
  by (simp add: facesOfTriangles_def assms List.map_filter_simps split: option.split)

lemma sum_list_rotate1: "sum_list (rotate1 (xs :: real list)) = sum_list xs"
  by (cases xs) simp_all

lemma map2_rotate1:
  "length xs = length ys \<Longrightarrow> map2 f (rotate1 xs) (rotate1 ys) = rotate1 (map2 f xs ys)"
  by (cases xs; cases ys) simp_all

lemma shoelaceSum_rotate1: "shoelaceSum (rotate1 ps) = shoelaceSum ps"
proof -
  have "map2 cross2 (rotate1 ps) (rotate1 (rotate1 ps)) = rotate1 (map2 cross2 ps (rotate1 ps))"
    by (rule map2_rotate1) simp
  then show ?thesis by (simp add: shoelaceSum_def sum_list_rotate1)
qed

lemma shoelaceSum_rotate: "shoelaceSum (rotate k ps) = shoelaceSum ps"
  by (induction k) (simp_all add: shoelaceSum_rotate1)

lemma closing_edge:
  "sum_list (map2 cross2 (a # rest) (rest @ [q0]))
     = sum_list (map2 cross2 (a # rest) rest) + cross2 (last (a # rest)) q0"
  by (induction rest arbitrary: a) simp_all

lemma planar_polygon_area:
  assumes len: "3 \<le> length ws"
      and nrm: "\<bar>vx (normalize (crossVectors (subVectors (ws ! 1) (ws ! 0))
                                            (subVectors (ws ! 2) (ws ! 0))))\<bar> = \<bar>vx u\<bar>"
               "\<bar>vy (normalize (crossVectors (subVectors (ws ! 1) (ws ! 0))
                                            (subVectors (ws ! 2) (ws ! 0))))\<bar> = \<bar>vy u\<bar>"
               "\<bar>vz (normalize (crossVectors (subVectors (ws ! 1) (ws ! 0))
                                            (subVectors (ws ! 2) (ws ! 0))))\<bar> = \<bar>vz u\<bar>"
      and unit: "lengthSq u = 1"
      and sx: "shoelaceSum (map (\<lambda>v. (vy v, vz v)) ws) = vx u * S"
      and sy: "shoelaceSum (map (\<lambda>v. (vx v, vz v)) ws) = - (vy u * S)"
      and sz: "shoelaceSum (map (\<lambda>v. (vx v, vy v)) ws) = vz u * S"
      and S: "0 \<le> S"
  shows "calculatePolygonArea ws = S / 2"
proof -
  define A where "A \<longleftrightarrow> \<bar>vx u\<bar> \<ge> \<bar>vy u\<bar> \<and> \<bar>vx u\<bar> \<ge> \<bar>vz u\<bar>"
  define B where "B \<longleftrightarrow> \<bar>vy u\<bar> \<ge> \<bar>vx u\<bar> \<and> \<bar>vy u\<bar> \<ge> \<bar>vz u\<bar>"
  have l: "\<not> length ws < 3" using len by simp
  have nz: "\<not> (vx u = 0 \<and> vy u = 0 \<and> vz u = 0)"
    using unit by (auto simp: lengthSq_def)
  have Ex: "calculatePolygonArea ws = S / 2" if A
  proof -
    from that nz have k: "vx u \<noteq> 0" by (auto simp: A_def)
    have "calculatePolygonArea ws = \<bar>vx u * S\<bar> / 2 * (1 / \<bar>vx u\<bar>)"
      unfolding calculatePolygonArea_def Let_def nrm A_def [symmetric] B_def [symmetric]
      using that l k by (simp add: sx)
    then show ?thesis using k S by (simp add: abs_mult)
  qed
  have Ey: "calculatePolygonArea ws = S / 2" if "\<not> A" B
  proof -
    from that nz have k: "vy u \<noteq> 0" by (auto simp: B_def)
    have "calculatePolygonArea ws = \<bar>- (vy u * S)\<bar> / 2 * (1 / \<bar>vy u\<bar>)"
      unfolding calculatePolygonArea_def Let_def nrm A_def [symmetric] B_def [symmetric]
      using that l k by (simp add: sy)
    then show ?thesis using k S by (simp add: abs_mult)
  qed
  have Ez: "calculatePolygonArea ws = S / 2" if "\<not> A" "\<not> B"
  proof -
    from that nz have k: "vz u \<noteq> 0" by (auto simp: A_def B_def)
    have "calculatePolygonArea ws = \<bar>vz u * S\<bar> / 2 * (1 / \<bar>vz u\<bar>)"
      unfolding calculatePolygonArea_def Let_def nrm A_def [symmetric] B_def [symmetric]
      using that l k by (simp add: sz)
    then show ?thesis using k S by (simp add: abs_mult)
  qed
  from Ex Ey Ez show ?thesis by blast
qed

lemma triple_expansion:
  "multiplyScalar (crossVectors p q) (lengthSq u)
     = addVectors (multiplyScalar u (dot (crossVectors p q) u))
         (crossVectors u (subVectors (multiplyScalar q (dot u p)) (multiplyScalar p (dot u q))))"
  by (simp add: multiplyScalar_def crossVectors_def lengthSq_def addVectors_def dot_def
        subVectors_def vec_def algebra_simps)

lemma cross_in_plane:
  assumes "dot u p = 0" "dot u q = 0" "lengthSq u = 1"
  shows "crossVectors p q = multiplyScalar u (dot (crossVectors p q) u)"
proof -
  have z: "crossVectors u (subVectors (multiplyScalar q 0) (multiplyScalar p 0)) = vec 0 0 0"
    by (simp add: crossVectors_def subVectors_def multiplyScalar_def vec_sel)
  have "multiplyScalar (crossVectors p q) 1
        = addVectors (multiplyScalar u (dot (crossVectors p q) u)) (vec 0 0 0)"
    using triple_expansion [of p q u] assms by (simp add: z)
  then show ?thesis
    by (simp add: multiplyScalar_def addVectors_def vec_def)
qed

lemma normalize_multiple:
  assumes "lengthSq u = 1" "k \<noteq> 0"
  shows "\<bar>vx (normalize (multiplyScalar u k))\<bar> = \<bar>vx u\<bar>"
        "\<bar>vy (normalize (multiplyScalar u k))\<bar> = \<bar>vy u\<bar>"
        "\<bar>vz (normalize (multiplyScalar u k))\<bar> = \<bar>vz u\<bar>"
proof -
  have "lengthSq (multiplyScalar u k) = k * k * lengthSq u"
    by (simp add: lengthSq_def multiplyScalar_def vec_sel algebra_simps)
  then have "vlength (multiplyScalar u k) = \<bar>k\<bar>"
    using assms(1) by (simp add: vlength_def real_sqrt_mult)
  then have s: "unitScale (multiplyScalar u k) = \<bar>k\<bar>"
    using assms(2) by (simp add: unitScale_def)
  have "\<bar>vx (normalize (multiplyScalar u k))\<bar> = \<bar>vx (multiplyScalar u k)\<bar> / \<bar>k\<bar>"
       "\<bar>vy (normalize (multiplyScalar u k))\<bar> = \<bar>vy (multiplyScalar u k)\<bar> / \<bar>k\<bar>"
       "\<bar>vz (normalize (multiplyScalar u k))\<bar> = \<bar>vz (multiplyScalar u k)\<bar> / \<bar>k\<bar>"
    by (simp_all only: abs_normalize_sel s)
  then show "\<bar>vx (normalize (multiplyScalar u k))\<bar> = \<bar>vx u\<bar>"
       "\<bar>vy (normalize (multiplyScalar u k))\<bar> = \<bar>vy u\<bar>"
       "\<bar>vz (normalize (multiplyScalar u k))\<bar> = \<bar>vz u\<bar>"
    using assms(2) by (simp_all add: multiplyScalar_def vec_sel abs_mult)
qed

lemma getNormal_edgeCross:
  "getNormal v0 x y
     = (if lengthSq (edgeCross v0 x y) > 0
        then multiplyScalar (edgeCross v0 x y) (1 / vlength (edgeCross v0 x y))
        else vec 0 0 0)"
  unfolding getNormal_def edgeCross_def Let_def cross_permuted(2) [of y x v0]
  by (simp add: vlength_def)

lemma triangleArea_edgeCross: "triangleArea (Triangle v0 x y) = vlength (edgeCross v0 x y) / 2"
  by (simp add: triangleArea_cross edgeCross_def)

lemma edgeCross_orthogonal:
  "dot (edgeCross v0 x y) (subVectors x v0) = 0"
  "dot (edgeCross v0 x y) (subVectors y v0) = 0"
  by (simp_all add: edgeCross_def dot_def crossVectors_def subVectors_def vec_sel algebra_simps)

lemma dot_multiplyScalar: "dot (multiplyScalar a k) b = k * dot a b"
  by (simp add: dot_def multiplyScalar_def vec_sel algebra_simps)

lemma lengthSq_multiplyScalar: "lengthSq (multiplyScalar a k) = k * k * lengthSq a"
  by (simp add: lengthSq_def multiplyScalar_def vec_sel algebra_simps)

lemma multiplyScalar_twice: "multiplyScalar (multiplyScalar a k) m = multiplyScalar a (k * m)"
  by (simp add: multiplyScalar_def vec_sel algebra_simps)

lemma multiplyScalar_one: "multiplyScalar a 1 = a"
  by (simp add: multiplyScalar_def vec_def)

text \<open>What a triangle with unit normal \<open>u\<close> and positive area says about its edges.\<close>

lemma seed_triangle:
  assumes "getNormal v0 x y = u" "0 < triangleArea (Triangle v0 x y)"
  shows "edgeCross v0 x y = multiplyScalar u (vlength (edgeCross v0 x y))"
    and "0 < vlength (edgeCross v0 x y)"
    and "lengthSq u = 1"
    and "dot u (subVectors x v0) = 0"
    and "dot u (subVectors y v0) = 0"
proof -
  let ?c = "edgeCross v0 x y"
  show L: "0 < vlength ?c" using assms(2) by (simp add: triangleArea_edgeCross)
  then have "0 < lengthSq ?c"
    using lengthSq_nonneg [of ?c] by (auto simp: vlength_def less_le)
  then have u: "u = multiplyScalar ?c (1 / vlength ?c)"
    using assms(1) by (simp add: getNormal_edgeCross)
  show "?c = multiplyScalar u (vlength ?c)"
    using L by (simp add: u multiplyScalar_twice multiplyScalar_one)
  have "lengthSq ?c = vlength ?c * vlength ?c"
    using lengthSq_nonneg [of ?c] by (simp add: vlength_def)
  then show "lengthSq u = 1"
    using L by (simp add: u lengthSq_multiplyScalar)
  show "dot u (subVectors x v0) = 0" "dot u (subVectors y v0) = 0"
    by (simp_all add: u dot_multiplyScalar edgeCross_orthogonal)
qed

lemma dot_subVectors_split:
  "dot u (subVectors p q) = dot u (subVectors p r) - dot u (subVectors q r)"
  by (simp add: dot_def subVectors_def vec_sel algebra_simps)

lemma normal_of_seed:
  assumes "getNormal v0 x y = u" "0 < triangleArea (Triangle v0 x y)"
  shows "setFromCoplanarPoints v0 x y = \<lparr>normalOfPlane = u, constantOfPlane = - dot v0 u\<rparr>"
proof -
  let ?c = "edgeCross v0 x y"
  from seed_triangle(2) [OF assms] have L: "0 < vlength ?c" .
  then have "0 < lengthSq ?c"
    using lengthSq_nonneg [of ?c] by (auto simp: vlength_def less_le)
  then have u: "u = multiplyScalar ?c (1 / vlength ?c)"
    using assms(1) by (simp add: getNormal_edgeCross)
  have "normalize (crossVectors (subVectors y x) (subVectors v0 x)) = normalize ?c"
    by (simp only: cross_permuted(2) [of y x v0] edgeCross_def)
  also have "\<dots> = u"
    using L by (simp add: normalize_def divideScalar_def u)
  finally show ?thesis
    by (simp add: setFromCoplanarPoints_def Let_def)
qed

lemma sum_list_scaled:
  "sum_list (map (\<lambda>p. c * f p) ps) = c * sum_list (map f ps)" for c :: real
  by (induction ps) (simp_all add: algebra_simps)

lemma sum_list_positive:
  "ps \<noteq> [] \<Longrightarrow> \<forall>p \<in> set ps. 0 < f p \<Longrightarrow> 0 < sum_list (map f ps)" for f :: "'a \<Rightarrow> real"
proof (induction ps)
  case Nil
  then show ?case by simp
next
  case (Cons p ps)
  show ?case
  proof (cases "ps = []")
    case True
    with Cons.prems show ?thesis by simp
  next
    case False
    with Cons have "0 < sum_list (map f ps)" "0 < f p" by auto
    then show ?thesis by simp
  qed
qed

text \<open>
  The angle of a point of the plane: its range, its cosine and sine, and how the cross
  product of two points compares their angles.
\<close>

lemma atan2_bounds: "- pi < atan2 y x \<and> atan2 y x \<le> pi"
proof -
  have a: "- (pi / 2) < arctan (y / x)" "arctan (y / x) < pi / 2"
    by (rule arctan_lbound, rule arctan_ubound)
  have b: "x < 0 \<Longrightarrow> 0 \<le> y \<Longrightarrow> arctan (y / x) \<le> 0"
    by (simp add: divide_nonneg_neg arctan_le_zero_iff)
  have c: "x < 0 \<Longrightarrow> y < 0 \<Longrightarrow> 0 < arctan (y / x)"
    by (simp add: divide_neg_neg arctan_less_zero_iff zero_less_arctan_iff)
  show ?thesis
    using a b c pi_gt_zero by (auto simp: atan2_def)
qed

lemma sqrt_ratio:
  assumes "x \<noteq> 0"
  shows "sqrt (1 + (y / x)\<^sup>2) = sqrt (x * x + y * y) / \<bar>x\<bar>"
proof -
  have "1 + (y / x)\<^sup>2 = (x * x + y * y) / (x * x)"
    using assms by (simp add: power2_eq_square field_simps)
  then have "sqrt (1 + (y / x)\<^sup>2) = sqrt (x * x + y * y) / sqrt (x * x)"
    by (simp add: real_sqrt_divide)
  then show ?thesis by simp
qed

lemma radius_pos: "x \<noteq> 0 \<or> y \<noteq> 0 \<Longrightarrow> 0 < sqrt (x * x + y * y)" for x y :: real
  by (smt (verit) mult_eq_0_iff real_sqrt_gt_zero zero_le_square add_nonneg_eq_0_iff
      add_nonneg_nonneg)

lemma atan2_polar:
  assumes "x \<noteq> 0 \<or> y \<noteq> 0"
  shows "cos (atan2 y x) = x / sqrt (x * x + y * y)"
    and "sin (atan2 y x) = y / sqrt (x * x + y * y)"
proof -
  let ?r = "sqrt (x * x + y * y)"
  let ?t = "arctan (y / x)"
  have r: "0 < ?r" using assms by (rule radius_pos)
  have c: "cos ?t = \<bar>x\<bar> / ?r" if "x \<noteq> 0"
    using that r by (simp add: cos_arctan sqrt_ratio)
  have s: "sin ?t = (y / x) * \<bar>x\<bar> / ?r" if "x \<noteq> 0"
    using that r by (simp add: sin_arctan sqrt_ratio)
  have y0: "?r = \<bar>y\<bar>" if "x = 0" using that by simp
  show "cos (atan2 y x) = x / ?r"
    using c r y0 by (auto simp: atan2_def)
  show "sin (atan2 y x) = y / ?r"
    using s r y0 assms by (auto simp: atan2_def)
qed

lemma angleOf_bounds: "- pi < angleOf p" "angleOf p \<le> pi"
  using atan2_bounds [of "snd p" "fst p"] by (simp_all add: angleOf_def)

lemma sin_nonpos: "- pi \<le> d \<Longrightarrow> d \<le> 0 \<Longrightarrow> sin d \<le> 0"
  using sin_ge_zero [of "- d"] by simp

lemma sin_neg: "- pi < d \<Longrightarrow> d < 0 \<Longrightarrow> sin d < 0"
  using sin_gt_zero [of "- d"] by simp

lemma snd_sign:
  assumes "p \<noteq> (0, 0)"
  shows "angleOf p < 0 \<longleftrightarrow> snd p < 0"
proof -
  let ?r = "sqrt (fst p * fst p + snd p * snd p)"
  have nz: "fst p \<noteq> 0 \<or> snd p \<noteq> 0" using assms by (cases p) auto
  have r: "0 < ?r" using nz by (rule radius_pos)
  have s: "sin (angleOf p) = snd p / ?r"
    unfolding angleOf_def by (rule atan2_polar(2) [OF nz])
  have "sin (angleOf p) < 0 \<longleftrightarrow> snd p < 0"
    using r by (simp add: s divide_less_0_iff)
  moreover have "sin (angleOf p) < 0 \<longleftrightarrow> angleOf p < 0"
    using angleOf_bounds [of p] sin_neg [of "angleOf p"] sin_ge_zero [of "angleOf p"]
    by (smt (verit))
  ultimately show ?thesis by simp
qed

lemma cross2_sin:
  assumes "p \<noteq> (0, 0)" "q \<noteq> (0, 0)"
  shows "0 < cross2 p q \<longleftrightarrow> 0 < sin (angleOf q - angleOf p)"
proof -
  let ?rp = "sqrt (fst p * fst p + snd p * snd p)"
  let ?rq = "sqrt (fst q * fst q + snd q * snd q)"
  have nzp: "fst p \<noteq> 0 \<or> snd p \<noteq> 0" using assms(1) by (cases p) auto
  have nzq: "fst q \<noteq> 0 \<or> snd q \<noteq> 0" using assms(2) by (cases q) auto
  have r: "0 < ?rp" "0 < ?rq" using nzp nzq by (simp_all only: radius_pos)
  have "sin (angleOf q - angleOf p)
        = (snd q / ?rq) * (fst p / ?rp) - (fst q / ?rq) * (snd p / ?rp)"
    unfolding angleOf_def sin_diff
    by (simp only: atan2_polar [OF nzp] atan2_polar [OF nzq])
  also have "\<dots> = cross2 p q / (?rp * ?rq)"
    by (simp add: cross2_def diff_divide_distrib mult.commute)
  finally have "sin (angleOf q - angleOf p) = cross2 p q / (?rp * ?rq)" .
  moreover have "0 < ?rp * ?rq" using r by simp
  ultimately show ?thesis by (simp add: zero_less_divide_iff)
qed

lemma descent_signs:
  assumes "p \<noteq> (0, 0)" "q \<noteq> (0, 0)" "0 < cross2 p q" "angleOf q \<le> angleOf p"
  shows "0 \<le> snd p" "snd q < 0"
proof -
  let ?d = "angleOf q - angleOf p"
  have s: "0 < sin ?d" using assms by (simp add: cross2_sin)
  have "?d < - pi"
    using s sin_nonpos [of ?d] assms(4) by (smt (verit))
  then have "angleOf q < 0" "0 < angleOf p"
    using angleOf_bounds [of p] angleOf_bounds [of q] by linarith+
  then show "0 \<le> snd p" "snd q < 0"
    using snd_sign [OF assms(1)] snd_sign [OF assms(2)] by linarith+
qed

lemma lower_half_order:
  assumes "p \<noteq> (0, 0)" "q \<noteq> (0, 0)" "0 < cross2 p q" "snd p < 0" "snd q < 0"
  shows "angleOf p < angleOf q"
proof -
  let ?d = "angleOf q - angleOf p"
  have s: "0 < sin ?d" using assms by (simp add: cross2_sin)
  have "angleOf p < 0" "angleOf q < 0"
    using snd_sign [OF assms(1)] snd_sign [OF assms(2)] assms(4,5) by simp_all
  then have "- pi < ?d"
    using angleOf_bounds [of p] angleOf_bounds [of q] by linarith
  then show ?thesis
    using s sin_nonpos [of ?d] by (smt (verit))
qed

text \<open>
  Points in convex position, listed counter-clockwise, with their centre of mass at the
  origin: seen from the origin every point is followed counter-clockwise by the next one,
  around the list the points change sides of the horizontal axis at most twice, and so,
  starting from the point of least angle, the angles increase along the list.
\<close>

lemma orient2_rotate: "orient2 q r p = orient2 p q r"
  by (simp add: orient2_def cross2_def diff2_def algebra_simps)

lemma orient2_same: "orient2 a a b = 0" "orient2 b a b = 0"
  by (simp_all add: orient2_def cross2_def diff2_def algebra_simps)

lemma orient2_sum:
  "sum_list (map (\<lambda>p. orient2 p a b) qs)
     = real (length qs) * cross2 a b
       - cross2 (sum_list (map fst qs), sum_list (map snd qs)) (diff2 b a)"
  by (induction qs) (simp_all add: orient2_def cross2_def diff2_def algebra_simps)

lemma sum_list_pos_nth:
  fixes f :: "'a \<Rightarrow> real"
  assumes "\<And>k. k < length xs \<Longrightarrow> 0 \<le> f (xs ! k)" "k < length xs" "0 < f (xs ! k)"
  shows "0 < sum_list (map f xs)"
proof -
  have xs: "xs = take k xs @ xs ! k # drop (Suc k) xs"
    using assms(2) by (rule id_take_nth_drop)
  have nn: "0 \<le> f x" if "x \<in> set xs" for x
    using that assms(1) by (auto simp: in_set_conv_nth)
  have "0 \<le> sum_list (map f (take k xs))"
    by (intro sum_list_nonneg) (auto dest: in_set_takeD nn)
  moreover have "0 \<le> sum_list (map f (drop (Suc k) xs))"
    by (intro sum_list_nonneg) (auto dest: in_set_dropD nn)
  moreover have "sum_list (map f xs)
      = sum_list (map f (take k xs)) + f (xs ! k) + sum_list (map f (drop (Suc k) xs))"
    by (subst xs) simp
  ultimately show ?thesis using assms(3) by linarith
qed


lemma convex2_iff:
  "convex2 qs \<longleftrightarrow>
     (\<forall>i j k. i < j \<and> j < k \<and> k < length qs \<longrightarrow> 0 < orient2 (qs ! i) (qs ! j) (qs ! k))"
proof (induction qs)
  case Nil
  then show ?case by simp
next
  case (Cons a qs)
  let ?P = "\<lambda>qs. \<forall>i j k. i < j \<and> j < k \<and> k < length qs
              \<longrightarrow> 0 < orient2 (qs ! i) (qs ! j) (qs ! k)"
  show ?case
  proof
    assume c: "convex2 (a # qs)"
    then have s: "sorted_wrt (\<lambda>b c. 0 < orient2 a b c) qs" and t: "?P qs"
      using Cons.IH by simp_all
    show "?P (a # qs)"
    proof (intro allI impI)
      fix i j k
      assume h: "i < j \<and> j < k \<and> k < length (a # qs)"
      obtain j' where j: "j = Suc j'" using h by (cases j) auto
      obtain k' where k: "k = Suc k'" using h by (cases k) auto
      show "0 < orient2 ((a # qs) ! i) ((a # qs) ! j) ((a # qs) ! k)"
      proof (cases i)
        case 0
        from sorted_wrt_nth_less [OF s, of j' k'] h j k 0 show ?thesis by simp
      next
        case (Suc i')
        with t h j k show ?thesis by simp
      qed
    qed
  next
    assume p: "?P (a # qs)"
    have "sorted_wrt (\<lambda>b c. 0 < orient2 a b c) qs"
      unfolding sorted_wrt_iff_nth_less
    proof (intro allI impI)
      fix j k assume "j < k" "k < length qs"
      with p [rule_format, of 0 "Suc j" "Suc k"] show "0 < orient2 a (qs ! j) (qs ! k)"
        by simp
    qed
    moreover have "?P qs"
    proof (intro allI impI)
      fix i j k assume "i < j \<and> j < k \<and> k < length qs"
      with p [rule_format, of "Suc i" "Suc j" "Suc k"]
      show "0 < orient2 (qs ! i) (qs ! j) (qs ! k)" by simp
    qed
    ultimately show "convex2 (a # qs)" using Cons.IH by simp
  qed
qed

lemma convex2D:
  "convex2 qs \<Longrightarrow> i < j \<Longrightarrow> j < k \<Longrightarrow> k < length qs \<Longrightarrow> 0 < orient2 (qs ! i) (qs ! j) (qs ! k)"
  by (simp add: convex2_iff)

lemma adjacent_positive:
  assumes c: "convex2 qs" and n: "3 \<le> length qs"
      and z: "sum_list (map fst qs) = 0" "sum_list (map snd qs) = 0"
      and i: "Suc i < length qs"
  shows "0 < cross2 (qs ! i) (qs ! Suc i)"
proof -
  let ?a = "qs ! i" and ?b = "qs ! Suc i"
  let ?f = "\<lambda>p. orient2 p ?a ?b"
  have nn: "0 \<le> ?f (qs ! k)" if "k < length qs" for k
  proof -
    consider "k < i" | "k = i" | "k = Suc i" | "Suc i < k" by linarith
    then show ?thesis
    proof cases
      case 1
      with convex2D [OF c, of k i "Suc i"] i show ?thesis by simp
    next
      case 2
      then show ?thesis by (simp add: orient2_same)
    next
      case 3
      then show ?thesis by (simp add: orient2_same)
    next
      case 4
      with convex2D [OF c, of i "Suc i" k] that show ?thesis
        by (simp add: orient2_rotate [of ?a ?b "qs ! k"])
    qed
  qed
  obtain k where k: "k < length qs" "k \<noteq> i" "k \<noteq> Suc i"
  proof (cases "i = 0")
    case True
    with n have "2 < length qs" "2 \<noteq> i" "2 \<noteq> Suc i" by simp_all
    then show ?thesis by (rule that)
  next
    case False
    with i have "0 < length qs" "0 \<noteq> i" "0 \<noteq> Suc i" by auto
    then show ?thesis by (rule that)
  qed
  have pos: "0 < ?f (qs ! k)"
  proof -
    consider "k < i" | "Suc i < k" using k by linarith
    then show ?thesis
    proof cases
      case 1
      with convex2D [OF c, of k i "Suc i"] i show ?thesis by simp
    next
      case 2
      with convex2D [OF c, of i "Suc i" k] k show ?thesis
        by (simp add: orient2_rotate [of ?a ?b "qs ! k"])
    qed
  qed
  have "0 < sum_list (map ?f qs)"
    using nn k(1) pos by (rule sum_list_pos_nth [where f = ?f and xs = qs and k = k])
  then have "0 < real (length qs) * cross2 ?a ?b"
    by (simp add: orient2_sum z cross2_def)
  then show ?thesis
    by (simp add: zero_less_mult_iff)
qed

lemma convex2_rotate1:
  assumes c: "convex2 qs"
  shows "convex2 (rotate1 qs)"
  unfolding convex2_iff
proof (intro allI impI)
  fix i j k
  assume h: "i < j \<and> j < k \<and> k < length (rotate1 qs)"
  then have k: "k < length qs" and ij: "i < j" and jk: "j < k" by simp_all
  let ?n = "length qs"
  have ri: "rotate1 qs ! i = qs ! Suc i" and rj: "rotate1 qs ! j = qs ! Suc j"
    using ij jk k by (simp_all add: nth_rotate1)
  show "0 < orient2 (rotate1 qs ! i) (rotate1 qs ! j) (rotate1 qs ! k)"
  proof (cases "Suc k < ?n")
    case True
    then have "rotate1 qs ! k = qs ! Suc k" using k by (simp add: nth_rotate1)
    with convex2D [OF c, of "Suc i" "Suc j" "Suc k"] ij jk True ri rj show ?thesis by simp
  next
    case False
    with k have "Suc k = ?n" by simp
    then have "rotate1 qs ! k = qs ! 0" using k by (simp add: nth_rotate1)
    with convex2D [OF c, of 0 "Suc i" "Suc j"] ij jk k ri rj
    show ?thesis by (simp add: orient2_rotate [of "qs ! Suc i" "qs ! Suc j" "qs ! 0"])
  qed
qed

lemma convex2_rotate: "convex2 qs \<Longrightarrow> convex2 (rotate m qs)"
  by (induction m) (simp_all add: convex2_rotate1)

lemma sum_list_map_rotate1:
  "sum_list (map f (rotate1 xs)) = sum_list (map f xs)" for f :: "'a \<Rightarrow> real"
  by (cases xs) simp_all

lemma sum_list_map_rotate:
  "sum_list (map f (rotate m xs)) = sum_list (map f xs)" for f :: "'a \<Rightarrow> real"
  by (induction m) (simp_all add: sum_list_map_rotate1)

lemma closing_positive:
  assumes c: "convex2 qs" and n: "3 \<le> length qs"
      and z: "sum_list (map fst qs) = 0" "sum_list (map snd qs) = 0"
  shows "0 < cross2 (last qs) (qs ! 0)"
proof -
  let ?n = "length qs"
  let ?rs = "rotate1 qs"
  have ne: "qs \<noteq> []" using n by auto
  have i: "Suc (?n - 2) < length ?rs" using n by simp
  have "0 < cross2 (?rs ! (?n - 2)) (?rs ! Suc (?n - 2))"
    using convex2_rotate1 [OF c] n z i
    by (intro adjacent_positive) (simp_all add: sum_list_map_rotate1)
  moreover have s1: "Suc (?n - 2) = ?n - 1" and s2: "Suc (?n - Suc 0) = ?n"
    using n by simp_all
  moreover have "?rs ! (?n - 2) = qs ! (?n - 1)"
    using n by (simp add: nth_rotate1 s1)
  moreover have "?rs ! Suc (?n - 2) = qs ! 0"
    using n by (simp only: s1) (simp add: nth_rotate1 s2)
  ultimately show ?thesis using ne by (simp add: last_conv_nth)
qed

lemma four_point_identity:
  "orient2 b c d * snd a - orient2 a c d * snd b + orient2 a b d * snd c - orient2 a b c * snd d = 0"
  by (simp add: orient2_def cross2_def diff2_def algebra_simps)

lemma no_alternation:
  assumes c: "convex2 qs" and o: "i < j" "j < k" "k < l" "l < length qs"
      and s: "snd (qs ! i) < 0" "0 \<le> snd (qs ! j)" "snd (qs ! k) < 0" "0 \<le> snd (qs ! l)"
  shows False
proof -
  let ?a = "qs ! i" and ?b = "qs ! j" and ?c = "qs ! k" and ?d = "qs ! l"
  have d: "0 < orient2 ?b ?c ?d" "0 < orient2 ?a ?c ?d" "0 < orient2 ?a ?b ?d"
          "0 < orient2 ?a ?b ?c"
    using o by (auto intro!: convex2D [OF c])
  have "orient2 ?b ?c ?d * snd ?a + orient2 ?a ?b ?d * snd ?c < 0"
    using d s by (smt (verit) mult_pos_neg add_neg_neg)
  moreover have "0 \<le> orient2 ?a ?c ?d * snd ?b + orient2 ?a ?b ?c * snd ?d"
    using d s by (smt (verit) mult_nonneg_nonneg add_nonneg_nonneg less_imp_le)
  ultimately show False
    using four_point_identity [of ?b ?c ?d ?a] by linarith
qed

lemma cross2_zero_left: "cross2 (0, 0) q = 0"
  by (simp add: cross2_def)

lemma least_angle:
  assumes "qs \<noteq> []"
  shows "\<exists>m < length qs. \<forall>i < length qs. angleOf (qs ! m) \<le> angleOf (qs ! i)"
proof -
  let ?A = "set (map angleOf qs)"
  have "Min ?A \<in> ?A" using assms by (intro Min_in) simp_all
  then obtain m where m: "m < length qs" "angleOf (qs ! m) = Min ?A"
    by (auto simp: in_set_conv_nth)
  have "angleOf (qs ! m) \<le> angleOf (qs ! i)" if "i < length qs" for i
    using that by (simp add: m(2))
  with m(1) show ?thesis by blast
qed

lemma increasing_from_least:
  assumes c: "convex2 ws" and n: "3 \<le> length ws"
      and z: "sum_list (map fst ws) = 0" "sum_list (map snd ws) = 0"
      and least: "\<And>i. i < length ws \<Longrightarrow> angleOf (ws ! 0) \<le> angleOf (ws ! i)"
      and t: "Suc t < length ws"
  shows "angleOf (ws ! t) < angleOf (ws ! Suc t)"
proof (rule ccontr)
  let ?n = "length ws"
  assume "\<not> angleOf (ws ! t) < angleOf (ws ! Suc t)"
  then have le: "angleOf (ws ! Suc t) \<le> angleOf (ws ! t)" by simp
  have adj: "0 < cross2 (ws ! i) (ws ! Suc i)" if "Suc i < ?n" for i
    using c n z that by (rule adjacent_positive)
  have ne: "ws \<noteq> []" using n by auto
  have closing: "0 < cross2 (ws ! (?n - 1)) (ws ! 0)"
    using closing_positive [OF c n z] ne by (simp add: last_conv_nth)
  have nz: "ws ! i \<noteq> (0, 0)" if "i < ?n" for i
  proof (cases "Suc i < ?n")
    case True
    from adj [OF True] show ?thesis by (auto simp: cross2_zero_left)
  next
    case False
    with that have "i = ?n - 1" by simp
    with closing show ?thesis by (auto simp: cross2_zero_left)
  qed
  have tn: "t < ?n" using t by simp
  from descent_signs [OF nz [OF tn] nz [OF t] adj [OF t] le]
  have st: "0 \<le> snd (ws ! t)" and sst: "snd (ws ! Suc t) < 0" by simp_all
  have n0: "0 < ?n" using n by linarith
  have "angleOf (ws ! Suc t) < 0"
    using snd_sign [OF nz [OF t]] sst by simp
  with least [OF t] have "angleOf (ws ! 0) < 0" by simp
  then have s0: "snd (ws ! 0) < 0"
    using snd_sign [OF nz [OF n0]] by simp
  have t0: "0 < t"
    using st s0 by (cases "t = 0") auto
  have low: "snd (ws ! s) < 0" if "Suc t \<le> s" "s < ?n" for s
  proof (cases "s = Suc t")
    case True
    with sst show ?thesis by simp
  next
    case False
    with that have lt: "Suc t < s" by simp
    show ?thesis
    proof (rule ccontr)
      assume "\<not> snd (ws ! s) < 0"
      then have "0 \<le> snd (ws ! s)" by simp
      with no_alternation [OF c t0 _ lt that(2) s0 st sst] show False by simp
    qed
  qed
  have up: "angleOf (ws ! Suc t) \<le> angleOf (ws ! (Suc t + d))" if "Suc t + d < ?n" for d
    using that
  proof (induction d)
    case 0
    then show ?case by simp
  next
    case (Suc d)
    then have b: "Suc t + d < ?n" and b': "Suc (Suc t + d) < ?n" by simp_all
    have "angleOf (ws ! (Suc t + d)) < angleOf (ws ! Suc (Suc t + d))"
      using nz [OF b] nz [OF b'] adj [OF b'] low [of "Suc t + d"] low [of "Suc (Suc t + d)"] b b'
      by (intro lower_half_order) simp_all
    with Suc.IH [OF b] show ?case by simp
  qed
  have "Suc t + (?n - 1 - Suc t) = ?n - 1" using t by simp
  with up [of "?n - 1 - Suc t"] t
  have a: "angleOf (ws ! Suc t) \<le> angleOf (ws ! (?n - 1))" by simp
  have l: "?n - 1 < ?n" using n by linarith
  have "angleOf (ws ! (?n - 1)) < angleOf (ws ! 0)"
    using nz [OF l] nz [OF n0] closing low [of "?n - 1"] s0 t l
    by (intro lower_half_order) simp_all
  with a least [OF t] show False by simp
qed

lemma angular_order:
  assumes c: "convex2 qs" and n: "3 \<le> length qs"
      and z: "sum_list (map fst qs) = 0" "sum_list (map snd qs) = 0"
  shows "\<exists>m < length qs. sorted_wrt (<) (map angleOf (rotate m qs))"
proof -
  have ne: "qs \<noteq> []" using n by auto
  from least_angle [OF ne] obtain m where m: "m < length qs"
    and least: "\<And>i. i < length qs \<Longrightarrow> angleOf (qs ! m) \<le> angleOf (qs ! i)"
    by blast
  let ?ws = "rotate m qs"
  have w0: "?ws ! 0 = qs ! m" using m ne by (simp add: nth_rotate)
  have least': "angleOf (?ws ! 0) \<le> angleOf (?ws ! i)" if "i < length ?ws" for i
  proof -
    from that have "?ws ! i \<in> set qs" by (metis nth_mem set_rotate)
    then obtain j where "j < length qs" "?ws ! i = qs ! j" by (auto simp: in_set_conv_nth)
    with least [of j] show ?thesis by (simp add: w0)
  qed
  have inc: "angleOf (?ws ! t) < angleOf (?ws ! Suc t)" if "Suc t < length ?ws" for t
    using convex2_rotate [OF c] _ _ _ least' that
    by (rule increasing_from_least) (simp_all add: n z sum_list_map_rotate)
  have "sorted_wrt (<) (map angleOf ?ws)"
    using inc by (subst sorted_wrt_iff_nth_Suc_transp) (auto simp: transp_def)
  with m show ?thesis by blast
qed

text \<open>
  For a unit normal that is not the y axis the two axes of a face and the normal are
  orthonormal and right-handed, so that the orientation of three vertices around the
  normal is the orientation of their coordinates in the plane.
\<close>

lemma vertexAngle_planePoint: "vertexAngle n c v = angleOf (planePoint n c v)"
  by (simp add: vertexAngle_def Let_def angleOf_def planePoint_def facePlaneX_def facePlaneY_def)

lemma normalize_unit:
  assumes "0 < lengthSq w"
  shows "normalize w = multiplyScalar w (1 / vlength w)"
    and "lengthSq (normalize w) = 1"
proof -
  have l: "0 < vlength w" using assms by (simp add: vlength_def)
  show n: "normalize w = multiplyScalar w (1 / vlength w)"
    using l by (simp add: normalize_def divideScalar_def)
  have "vlength w * vlength w = lengthSq w"
    using assms by (simp add: vlength_def)
  then show "lengthSq (normalize w) = 1"
    using l assms by (simp add: n lengthSq_multiplyScalar)
qed

lemma normalize_of_unit: "lengthSq w = 1 \<Longrightarrow> normalize w = w"
  by (simp add: normalize_def vlength_def divideScalar_def multiplyScalar_one)

lemma projection_facts:
  assumes "lengthSq u = 1"
  shows "lengthSq (projectOnPlane e u) = lengthSq e - dot u e * dot u e"
    and "dot u (projectOnPlane e u) = 0"
proof -
  have p: "projectOnPlane e u = subVectors e (multiplyScalar u (dot u e))"
    using assms by (simp add: projectOnPlane_def Let_def)
  have u: "vx u * vx u + vy u * vy u + vz u * vz u = 1"
    using assms by (simp add: lengthSq_def)
  have "lengthSq (projectOnPlane e u)
        = lengthSq e - 2 * dot u e * dot u e
          + dot u e * dot u e * (vx u * vx u + vy u * vy u + vz u * vz u)"
    unfolding p by (simp add: lengthSq_def subVectors_def multiplyScalar_def vec_sel dot_def
        algebra_simps)
  then show "lengthSq (projectOnPlane e u) = lengthSq e - dot u e * dot u e"
    by (simp add: u)
  have "dot u (projectOnPlane e u)
        = dot u e - dot u e * (vx u * vx u + vy u * vy u + vz u * vz u)"
    unfolding p by (simp add: subVectors_def multiplyScalar_def vec_sel dot_def algebra_simps)
  then show "dot u (projectOnPlane e u) = 0" by (simp add: u)
qed

lemma lagrange_identity:
  "lengthSq (crossVectors a b) = lengthSq a * lengthSq b - dot a b * dot a b"
  by (simp add: lengthSq_def crossVectors_def dot_def vec_sel algebra_simps)

lemma triple_product:
  "crossVectors a (crossVectors b c)
     = subVectors (multiplyScalar b (dot a c)) (multiplyScalar c (dot a b))"
  by (simp add: crossVectors_def subVectors_def multiplyScalar_def dot_def vec_def algebra_simps)

lemma binet_cauchy:
  "dot (crossVectors p q) (crossVectors r s) = dot p r * dot q s - dot p s * dot q r"
  by (simp add: crossVectors_def dot_def vec_sel algebra_simps)

lemma dot_commute: "dot a b = dot b a"
  by (simp add: dot_def algebra_simps)

lemma face_frame:
  assumes u: "lengthSq u = 1" and y: "\<bar>vy u\<bar> \<noteq> 1"
  shows "lengthSq (facePlaneX u) = 1"
    and "dot u (facePlaneX u) = 0"
    and "facePlaneY u = crossVectors u (facePlaneX u)"
    and "crossVectors (facePlaneX u) (facePlaneY u) = u"
proof -
  have uu: "vx u * vx u + vy u * vy u + vz u * vz u = 1"
    using u by (simp add: lengthSq_def)
  have posx: "0 < lengthSq (projectOnPlane (vec 1 0 0) u)" if "\<bar>vx u\<bar> < 0.9"
  proof -
    have "\<bar>vx u\<bar> < 1" using that by simp
    then have "vx u * vx u < 1"
      using abs_square_less_1 [of "vx u"] by (simp add: power2_eq_square)
    then show ?thesis
      unfolding projection_facts(1) [OF u] by (simp add: lengthSq_def dot_def vec_sel)
  qed
  have posy: "0 < lengthSq (projectOnPlane (vec 0 1 0) u)"
  proof -
    have "vy u * vy u \<le> 1"
      using uu zero_le_square [of "vx u"] zero_le_square [of "vz u"] by linarith
    moreover have "vy u * vy u \<noteq> 1"
      using y abs_square_eq_1 [of "vy u"] by (simp add: power2_eq_square)
    ultimately have "vy u * vy u < 1" by simp
    then show ?thesis
      unfolding projection_facts(1) [OF u] by (simp add: lengthSq_def dot_def vec_sel)
  qed
  have "\<exists>e. facePlaneX u = normalize (projectOnPlane e u)
             \<and> 0 < lengthSq (projectOnPlane e u)"
  proof (cases "\<bar>vx u\<bar> < 0.9 \<and> \<bar>vy u\<bar> < 0.9")
    case True
    then have "facePlaneX u = normalize (projectOnPlane (vec 1 0 0) u)"
      unfolding facePlaneX_def by (rule if_P)
    with posx True show ?thesis by blast
  next
    case False
    then have "facePlaneX u = normalize (projectOnPlane (vec 0 1 0) u)"
      unfolding facePlaneX_def by (rule if_not_P)
    with posy show ?thesis by blast
  qed
  then obtain e where e: "facePlaneX u = normalize (projectOnPlane e u)"
    and pos: "0 < lengthSq (projectOnPlane e u)"
    by blast
  show x1: "lengthSq (facePlaneX u) = 1"
    unfolding e by (rule normalize_unit(2) [OF pos])
  show x0: "dot u (facePlaneX u) = 0"
    unfolding e normalize_unit(1) [OF pos]
    using projection_facts(2) [OF u, of e]
    by (simp add: dot_commute [of u] dot_multiplyScalar)
  have "lengthSq (crossVectors u (facePlaneX u)) = 1"
    by (simp add: lagrange_identity u x1 x0)
  then show y: "facePlaneY u = crossVectors u (facePlaneX u)"
    unfolding facePlaneY_def by (rule normalize_of_unit)
  have "dot (facePlaneX u) (facePlaneX u) = 1"
    using x1 by (simp add: dot_def lengthSq_def)
  then show "crossVectors (facePlaneX u) (facePlaneY u) = u"
    unfolding y triple_product
    by (simp add: dot_commute [of _ u] x0 subVectors_def multiplyScalar_def vec_def)
qed

lemma orientation_planePoint:
  assumes "crossVectors (facePlaneX u) (facePlaneY u) = u"
  shows "orientation u a b d = orient2 (planePoint u c a) (planePoint u c b) (planePoint u c d)"
proof -
  have "orientation u a b d
        = dot (crossVectors (facePlaneX u) (facePlaneY u))
              (crossVectors (subVectors b a) (subVectors d a))"
    by (simp add: orientation_def edgeCross_def assms)
  also have "\<dots> = dot (facePlaneX u) (subVectors b a) * dot (facePlaneY u) (subVectors d a)
                   - dot (facePlaneX u) (subVectors d a) * dot (facePlaneY u) (subVectors b a)"
    by (rule binet_cauchy)
  also have "\<dots> = orient2 (planePoint u c a) (planePoint u c b) (planePoint u c d)"
    by (simp add: orient2_def cross2_def diff2_def planePoint_def dot_def subVectors_def vec_sel
        algebra_simps)
  finally show ?thesis .
qed

text \<open>
  The angular sort of the corners of a convex outline, given in any order, returns the
  outline from one of its corners on.
\<close>

lemma positivelyOriented_nth:
  "positivelyOriented u vs \<Longrightarrow> i < j \<Longrightarrow> j < k \<Longrightarrow> k < length vs \<Longrightarrow>
   0 < orientation u (vs ! i) (vs ! j) (vs ! k)"
proof (induction vs arbitrary: i j k)
  case Nil
  then show ?case by simp
next
  case (Cons a vs)
  obtain j' where j: "j = Suc j'" using Cons.prems(2) by (cases j) auto
  obtain k' where k: "k = Suc k'" using Cons.prems(3) by (cases k) auto
  show ?case
  proof (cases i)
    case 0
    have "sorted_wrt (\<lambda>b c. 0 < orientation u a b c) vs" using Cons.prems(1) by simp
    from sorted_wrt_nth_less [OF this, of j' k'] Cons.prems j k 0 show ?thesis by simp
  next
    case (Suc i')
    with Cons.IH [of i' j' k'] Cons.prems j k show ?thesis by simp
  qed
qed

lemma convex2_planePoints:
  assumes "crossVectors (facePlaneX u) (facePlaneY u) = u" "positivelyOriented u vs"
  shows "convex2 (map (planePoint u c) vs)"
  unfolding convex2_iff
  using positivelyOriented_nth [OF assms(2)]
  by (auto simp: orientation_planePoint [OF assms(1), of _ _ _ c, symmetric])

lemma fold_addVectors:
  "vx (fold (\<lambda>v c. addVectors c v) vs a) = vx a + sum_list (map vx vs)"
  "vy (fold (\<lambda>v c. addVectors c v) vs a) = vy a + sum_list (map vy vs)"
  "vz (fold (\<lambda>v c. addVectors c v) vs a) = vz a + sum_list (map vz vs)"
  by (induction vs arbitrary: a) (simp_all add: addVectors_def vec_sel)

lemma centroidOf_sel:
  "vx (centroidOf vs) = sum_list (map vx vs) / real (length vs)"
  "vy (centroidOf vs) = sum_list (map vy vs) / real (length vs)"
  "vz (centroidOf vs) = sum_list (map vz vs) / real (length vs)"
  by (simp_all add: centroidOf_def divideScalar_def multiplyScalar_def vec_sel fold_addVectors)

lemma sum_list_mset_cong:
  "mset xs = mset ys \<Longrightarrow> sum_list (map f xs) = sum_list (map f ys)" for f :: "'a \<Rightarrow> real"
  by (metis mset_map sum_mset_sum_list)

lemma sum_dot_centred:
  assumes "vs \<noteq> []"
  shows "sum_list (map (\<lambda>v. dot (subVectors v (centroidOf vs)) b) vs) = 0"
proof -
  let ?n = "real (length vs)"
  have n: "?n \<noteq> 0" using assms by simp
  have lin: "sum_list (map (\<lambda>v. dot (subVectors v c) b) ws)
        = (sum_list (map vx ws) - real (length ws) * vx c) * vx b
          + (sum_list (map vy ws) - real (length ws) * vy c) * vy b
          + (sum_list (map vz ws) - real (length ws) * vz c) * vz b" for c ws
    by (induction ws) (simp_all add: dot_def subVectors_def vec_sel algebra_simps)
  show ?thesis
    using n by (simp add: lin centroidOf_sel)
qed

lemma planePoints_centred:
  assumes "mset ws = mset vs" "vs \<noteq> []"
  shows "sum_list (map fst (map (planePoint u (centroidOf ws)) vs)) = 0"
    and "sum_list (map snd (map (planePoint u (centroidOf ws)) vs)) = 0"
proof -
  have ne: "ws \<noteq> []" using assms by auto
  have "sum_list (map (\<lambda>v. dot (subVectors v (centroidOf ws)) b) vs)
        = sum_list (map (\<lambda>v. dot (subVectors v (centroidOf ws)) b) ws)" for b
    by (rule sum_list_mset_cong [OF assms(1) [symmetric]])
  then have z: "sum_list (map (\<lambda>v. dot (subVectors v (centroidOf ws)) b) vs) = 0" for b
    by (simp add: sum_dot_centred [OF ne])
  show "sum_list (map fst (map (planePoint u (centroidOf ws)) vs)) = 0"
    using z [of "facePlaneX u"] by (simp add: comp_def planePoint_def)
  show "sum_list (map snd (map (planePoint u (centroidOf ws)) vs)) = 0"
    using z [of "facePlaneY u"] by (simp add: comp_def planePoint_def)
qed

lemma filter_key_unique:
  "distinct xs \<Longrightarrow> inj_on f (set xs) \<Longrightarrow> k \<in> set xs \<Longrightarrow> filter (\<lambda>x. f k = f x) xs = [k]"
proof (induction xs)
  case Nil
  then show ?case by simp
next
  case (Cons x xs)
  show ?case
  proof (cases "k = x")
    case True
    have "filter (\<lambda>y. f x = f y) xs = []"
      using Cons.prems(1,2) by (auto simp: filter_empty_conv inj_on_def)
    with True show ?thesis by simp
  next
    case False
    with Cons.prems have "k \<in> set xs" "f k \<noteq> f x"
      by (auto simp: inj_on_def)
    with Cons show ?thesis by (simp add: inj_on_def)
  qed
qed

lemma sort_key_unique:
  fixes f :: "'a \<Rightarrow> real"
  assumes m: "mset ws = mset ys" and s: "sorted_wrt (<) (map f ys)"
  shows "sort_key f ws = ys"
proof (rule properties_for_sort_key)
  show "mset ys = mset ws" using m by simp
  have d: "distinct (map f ys)" and so: "sorted (map f ys)"
    using s by (simp_all add: strict_sorted_iff)
  show "sorted (map f ys)" by (rule so)
  have dy: "distinct ys" and inj: "inj_on f (set ys)"
    using d by (simp_all add: distinct_map)
  have dw: "distinct ws" using m dy by (metis mset_eq_imp_distinct_iff)
  have sw: "set ws = set ys" using m by (rule mset_eq_setD)
  fix k assume k: "k \<in> set ys"
  have "filter (\<lambda>x. f k = f x) ys = [k]"
    using dy inj k by (rule filter_key_unique)
  moreover have "filter (\<lambda>x. f k = f x) ws = [k]"
    using dw inj k unfolding sw [symmetric] by (rule filter_key_unique)
  ultimately show "filter (\<lambda>x. f k = f x) ys = filter (\<lambda>x. f k = f x) ws" by simp
qed

lemma mset_rotate1: "mset (rotate1 xs) = mset xs"
  by (cases xs) simp_all

lemma mset_rotate: "mset (rotate k xs) = mset xs"
  by (induction k) (simp_all add: mset_rotate1)

lemma sorted_outline:
  assumes u: "lengthSq u = 1" and y: "\<bar>vy u\<bar> \<noteq> 1"
      and n: "3 \<le> length vs" and p: "positivelyOriented u vs"
      and m: "mset ws = mset vs"
  shows "\<exists>k < length vs. sortByAngle u ws = rotate k vs"
proof -
  let ?c = "centroidOf ws"
  let ?qs = "map (planePoint u ?c) vs"
  have ne: "vs \<noteq> []" using n by auto
  have fr: "crossVectors (facePlaneX u) (facePlaneY u) = u"
    by (rule face_frame(4) [OF u y])
  have c: "convex2 ?qs" by (rule convex2_planePoints [OF fr p])
  have l: "3 \<le> length ?qs" using n by simp
  from angular_order [OF c l planePoints_centred [OF m ne]]
  obtain k where k: "k < length vs" and s: "sorted_wrt (<) (map angleOf (rotate k ?qs))"
    by auto
  have "map angleOf (rotate k ?qs) = map (vertexAngle u ?c) (rotate k vs)"
    by (simp add: rotate_map vertexAngle_planePoint comp_def)
  with s have s': "sorted_wrt (<) (map (vertexAngle u ?c) (rotate k vs))" by simp
  have m': "mset ws = mset (rotate k vs)" using m by (simp add: mset_rotate)
  have "length ws = length vs" using m by (rule mset_eq_length)
  then have "sortByAngle u ws = sort_key (vertexAngle u ?c) ws"
    using n by (simp add: sortByAngle_def)
  also have "\<dots> = rotate k vs" by (rule sort_key_unique [OF m' s'])
  finally show ?thesis using k by blast
qed

text \<open>
  Triangulations: every triangle turns counter-clockwise, the shoelace sums of the
  triangles add up to the one of the outline, and every corner is used.
\<close>

lemma positivelyOriented_append:
  "positivelyOriented u (xs @ ys) \<Longrightarrow> positivelyOriented u xs \<and> positivelyOriented u ys"
  by (induction xs) (auto simp: sorted_wrt_append)

lemma orientation_rotate:
  "orientation u c b a = orientation u a c b" "orientation u b a c = orientation u a c b"
  by (simp_all add: orientation_def edgeCross_def dot_def crossVectors_def subVectors_def vec_sel
        algebra_simps)

lemma triangulation_triangles:
  assumes "triangulates vs ts"
  shows "positivelyOriented u vs \<longrightarrow>
         (\<forall>t \<in> set ts. \<exists>a b c. t = Triangle a b c \<and> a \<in> set vs \<and> b \<in> set vs \<and> c \<in> set vs
                             \<and> 0 < orientation u a b c)"
  using assms
proof (induction rule: triangulates.induct)
  case (edge a b)
  then show ?case by simp
next
  case (apex a xs c ts1 ys b ts2 t0 ts)
  let ?vs = "a # xs @ c # ys @ [b]"
  show ?case
  proof (intro impI ballI)
    fix t
    assume p: "positivelyOriented u ?vs" and t: "t \<in> set ts"
    have "positivelyOriented u ((a # xs @ [c]) @ (ys @ [b]))" using p by simp
    then have p1: "positivelyOriented u (a # xs @ [c])"
      by (rule positivelyOriented_append [THEN conjunct1])
    have "positivelyOriented u ((a # xs) @ (c # ys @ [b]))" using p by simp
    then have p2: "positivelyOriented u (c # ys @ [b])"
      by (rule positivelyOriented_append [THEN conjunct2])
    have o: "0 < orientation u a c b" using p by (simp add: sorted_wrt_append)
    have "set ts = set (t0 # ts1 @ ts2)" using apex.hyps(4) by (rule mset_eq_setD)
    with t consider "t = t0" | "t \<in> set ts1" | "t \<in> set ts2" by auto
    then show "\<exists>a' b' c'. t = Triangle a' b' c' \<and> a' \<in> set ?vs \<and> b' \<in> set ?vs \<and> c' \<in> set ?vs
                 \<and> 0 < orientation u a' b' c'"
    proof cases
      case 1
      with apex.hyps(3) consider "t = Triangle a c b" | "t = Triangle c b a" | "t = Triangle b a c"
        by auto
      then show ?thesis
      proof cases
        case 1
        with o show ?thesis by auto
      next
        case 2
        with o orientation_rotate(1) [of u c b a] show ?thesis by auto
      next
        case 3
        with o orientation_rotate(2) [of u b a c] show ?thesis by auto
      qed
    next
      case 2
      with apex.IH(1) p1 obtain a' b' c' where
        "t = Triangle a' b' c'" "a' \<in> set (a # xs @ [c])" "b' \<in> set (a # xs @ [c])"
        "c' \<in> set (a # xs @ [c])" "0 < orientation u a' b' c'"
        by blast
      then show ?thesis by auto
    next
      case 3
      with apex.IH(2) p2 obtain a' b' c' where
        "t = Triangle a' b' c'" "a' \<in> set (c # ys @ [b])" "b' \<in> set (c # ys @ [b])"
        "c' \<in> set (c # ys @ [b])" "0 < orientation u a' b' c'"
        by blast
      then show ?thesis by auto
    qed
  qed
qed

lemma open_chain_split:
  "sum_list (map2 cross2 (x # xs @ c # ys) (xs @ c # ys))
     = sum_list (map2 cross2 (x # xs @ [c]) (xs @ [c])) + sum_list (map2 cross2 (c # ys) ys)"
  by (induction xs arbitrary: x) simp_all

lemma shoelace_closed:
  "shoelaceSum (a # rest) = sum_list (map2 cross2 (a # rest) rest) + cross2 (last (a # rest)) a"
  by (simp add: shoelaceSum_def closing_edge del: last.simps)

lemma shoelace_split:
  "shoelaceSum (a # xs @ c # ys @ [b])
     = shoelaceSum (a # xs @ [c]) + shoelaceSum (c # ys @ [b]) + shoelaceSum [a, c, b]"
proof -
  have "shoelaceSum (a # xs @ c # ys @ [b])
        = sum_list (map2 cross2 (a # xs @ c # ys @ [b]) (xs @ c # ys @ [b])) + cross2 b a"
    using shoelace_closed [of a "xs @ c # ys @ [b]"] by simp
  also have "sum_list (map2 cross2 (a # xs @ c # ys @ [b]) (xs @ c # ys @ [b]))
        = sum_list (map2 cross2 (a # xs @ [c]) (xs @ [c]))
          + sum_list (map2 cross2 (c # ys @ [b]) (ys @ [b]))"
    by (rule open_chain_split)
  finally have w: "shoelaceSum (a # xs @ c # ys @ [b])
        = sum_list (map2 cross2 (a # xs @ [c]) (xs @ [c]))
          + sum_list (map2 cross2 (c # ys @ [b]) (ys @ [b])) + cross2 b a" .
  have l: "shoelaceSum (a # xs @ [c])
        = sum_list (map2 cross2 (a # xs @ [c]) (xs @ [c])) + cross2 c a"
    using shoelace_closed [of a "xs @ [c]"] by simp
  have r: "shoelaceSum (c # ys @ [b])
        = sum_list (map2 cross2 (c # ys @ [b]) (ys @ [b])) + cross2 b c"
    using shoelace_closed [of c "ys @ [b]"] by simp
  have t: "cross2 c a + cross2 b c + shoelaceSum [a, c, b] = cross2 b a"
    by (simp add: shoelace3 cross2_def)
  show ?thesis using w l r t by linarith
qed

lemma shoelace_triangle_rotations:
  "shoelaceSum [c, b, a] = shoelaceSum [a, c, b]" "shoelaceSum [b, a, c] = shoelaceSum [a, c, b]"
  by (simp_all add: shoelace3)

lemma triangulation_shoelace:
  assumes "triangulates vs ts"
  shows "sum_list (map (\<lambda>t. shoelaceSum (map f (triangleVertices t))) ts)
         = shoelaceSum (map f vs)"
  using assms
proof (induction rule: triangulates.induct)
  case (edge a b)
  show ?case by (simp add: shoelaceSum_def cross2_def)
next
  case (apex a xs c ts1 ys b ts2 t0 ts)
  let ?g = "\<lambda>t. shoelaceSum (map f (triangleVertices t))"
  have t0: "?g t0 = shoelaceSum [f a, f c, f b]"
    using apex.hyps(3) shoelace_triangle_rotations [of "f c" "f b" "f a"]
    by (auto simp: triangleVertices_def)
  have "sum_list (map ?g ts) = sum_list (map ?g (t0 # ts1 @ ts2))"
    by (rule sum_list_mset_cong [OF apex.hyps(4)])
  also have "\<dots> = shoelaceSum [f a, f c, f b] + shoelaceSum (map f (a # xs @ [c]))
                   + shoelaceSum (map f (c # ys @ [b]))"
    using apex.IH by (simp add: t0)
  also have "\<dots> = shoelaceSum (map f (a # xs @ c # ys @ [b]))"
    using shoelace_split [of "f a" "map f xs" "f c" "map f ys" "f b"] by simp
  finally show ?case .
qed

lemma triangulation_vertices:
  assumes "triangulates vs ts"
  shows "set (concat (map triangleVertices ts)) \<subseteq> set vs
         \<and> (3 \<le> length vs \<longrightarrow> ts \<noteq> [] \<and> set vs \<subseteq> set (concat (map triangleVertices ts)))"
  using assms
proof (induction rule: triangulates.induct)
  case (edge a b)
  then show ?case by simp
next
  case (apex a xs c ts1 ys b ts2 t0 ts)
  define V where "V ts = (\<Union>t \<in> set ts. set (triangleVertices t))" for ts
  have Vc: "set (concat (map triangleVertices ts)) = V ts" for ts
    by (simp add: V_def)
  have s: "set ts = insert t0 (set ts1 \<union> set ts2)"
    using mset_eq_setD [OF apex.hyps(4)] by simp
  have v0: "set (triangleVertices t0) = {a, c, b}"
    using apex.hyps(3) by (auto simp: triangleVertices_def)
  have V: "V ts = {a, c, b} \<union> V ts1 \<union> V ts2"
    unfolding V_def s using v0 by blast
  have ne: "ts \<noteq> []" using s by auto
  have l: "V ts1 \<subseteq> set (a # xs @ [c])" and r: "V ts2 \<subseteq> set (c # ys @ [b])"
    using apex.IH unfolding Vc by blast+
  have x: "set xs \<subseteq> V ts1"
  proof (cases "xs = []")
    case True
    then show ?thesis by simp
  next
    case False
    then have "3 \<le> length (a # xs @ [c])" by (cases xs) auto
    with apex.IH(1) have "set (a # xs @ [c]) \<subseteq> V ts1" unfolding Vc by blast
    then show ?thesis by simp
  qed
  have y: "set ys \<subseteq> V ts2"
  proof (cases "ys = []")
    case True
    then show ?thesis by simp
  next
    case False
    then have "3 \<le> length (c # ys @ [b])" by (cases ys) auto
    with apex.IH(2) have "set (c # ys @ [b]) \<subseteq> V ts2" unfolding Vc by blast
    then show ?thesis by simp
  qed
  have sub: "V ts \<subseteq> set (a # xs @ c # ys @ [b])"
    unfolding V using l r by auto
  have sup: "set (a # xs @ c # ys @ [b]) \<subseteq> V ts"
    unfolding V using x y by auto
  show ?case
    unfolding Vc using sub sup ne by blast
qed

text \<open>
  When the vertices have different keys the deduplication keeps each of them once, in
  the order of their first occurrence.
\<close>

lemma mapSet_known:
  assumes "inj_on vertexKey V" "set us \<subseteq> V" "v \<in> V"
  shows "mapSet (vertexKey v) v (map (\<lambda>w. (vertexKey w, w)) us)
         = (if v \<in> set us then map (\<lambda>w. (vertexKey w, w)) us
            else map (\<lambda>w. (vertexKey w, w)) us @ [(vertexKey v, v)])"
  using assms(2)
proof (induction us)
  case Nil
  then show ?case by simp
next
  case (Cons x us)
  then have x: "x \<in> V" by simp
  have "vertexKey x = vertexKey v \<longleftrightarrow> x = v"
    using assms(1,3) x by (auto simp: inj_on_def)
  with Cons show ?case by auto
qed

lemma fold_mapSet:
  assumes "inj_on vertexKey V"
  shows "set ws \<subseteq> V \<Longrightarrow> set us \<subseteq> V \<Longrightarrow> distinct us \<Longrightarrow>
         \<exists>us'. fold (\<lambda>v m. mapSet (vertexKey v) v m) ws (map (\<lambda>w. (vertexKey w, w)) us)
                 = map (\<lambda>w. (vertexKey w, w)) us'
               \<and> distinct us' \<and> set us' = set us \<union> set ws"
proof (induction ws arbitrary: us)
  case Nil
  then show ?case by auto
next
  case (Cons v ws)
  let ?kv = "\<lambda>w. (vertexKey w, w)"
  let ?us = "if v \<in> set us then us else us @ [v]"
  have v: "v \<in> V" using Cons.prems(1) by simp
  have step: "mapSet (vertexKey v) v (map ?kv us) = map ?kv ?us"
    using mapSet_known [OF assms Cons.prems(2) v] by simp
  have "set ws \<subseteq> V" "set ?us \<subseteq> V" "distinct ?us"
    using Cons.prems v by auto
  from Cons.IH [OF this] obtain us' where
    "fold (\<lambda>v m. mapSet (vertexKey v) v m) ws (map ?kv ?us) = map ?kv us'"
    "distinct us'" "set us' = set ?us \<union> set ws"
    by blast
  then show ?case
    by (intro exI [of _ us']) (auto simp: step)
qed

lemma unique_vertices_perm:
  assumes d: "distinct (map vertexKey vs)"
      and c: "set (concat (map triangleVertices ts)) = set vs"
  shows "mset (uniqueVerticesOf ts) = mset vs"
proof -
  have inj: "inj_on vertexKey (set vs)" and dv: "distinct vs"
    using d by (simp_all add: distinct_map)
  from fold_mapSet [OF inj, of "concat (map triangleVertices ts)" "[]"] c
  obtain us where
    f: "fold (\<lambda>v m. mapSet (vertexKey v) v m) (concat (map triangleVertices ts)) []
          = map (\<lambda>w. (vertexKey w, w)) us"
    and us: "distinct us" "set us = set vs"
    by auto
  have "uniqueVerticesOf ts = us"
    unfolding uniqueVerticesOf_def f by (simp add: comp_def)
  with us dv show ?thesis
    by (simp add: set_eq_iff_mset_eq_distinct)
qed

text \<open>A triangle in a plane with unit normal \<open>u\<close> that turns counter-clockwise around it.\<close>

lemma oriented_triangle:
  assumes u: "lengthSq u = 1"
      and pl: "dot u (subVectors b a) = 0" "dot u (subVectors c a) = 0"
      and o: "0 < orientation u a b c"
  shows "edgeCross a b c = multiplyScalar u (orientation u a b c)"
    and "vlength (edgeCross a b c) = orientation u a b c"
    and "getNormal a b c = u"
    and "triangleArea (Triangle a b c) = orientation u a b c / 2"
proof -
  let ?k = "orientation u a b c"
  show e: "edgeCross a b c = multiplyScalar u ?k"
    using cross_in_plane [OF pl u]
    by (simp add: orientation_def edgeCross_def dot_commute [of u])
  have "lengthSq (edgeCross a b c) = ?k * ?k"
    by (subst e) (simp add: lengthSq_multiplyScalar u)
  then show l: "vlength (edgeCross a b c) = ?k"
    using o by (simp add: vlength_def)
  have "0 < lengthSq (edgeCross a b c)"
    using o \<open>lengthSq (edgeCross a b c) = ?k * ?k\<close> by simp
  then have "getNormal a b c = multiplyScalar (edgeCross a b c) (1 / ?k)"
    by (simp add: getNormal_edgeCross l)
  also have "\<dots> = u"
    using o by (subst e) (simp add: multiplyScalar_twice multiplyScalar_one)
  finally show "getNormal a b c = u" .
  show "triangleArea (Triangle a b c) = ?k / 2"
    by (simp add: triangleArea_edgeCross l)
qed

lemma coplanar_triangles_join:
  assumes s: "getNormal a b c = u" "0 < triangleArea (Triangle a b c)"
      and t: "getNormal a' b' c' = u"
      and pl: "dot u (subVectors a' a) = 0" "dot u (subVectors b' a) = 0"
              "dot u (subVectors c' a) = 0"
  shows "joinsFace (Triangle a b c) (Triangle a' b' c')"
proof -
  have unit: "lengthSq u = 1" by (rule seed_triangle(3) [OF s])
  have d: "dot u u = 1" using unit by (simp add: dot_def lengthSq_def)
  have dist: "distanceToPoint \<lparr>normalOfPlane = u, constantOfPlane = - dot a u\<rparr> v
              = dot u (subVectors v a)" for v
    by (simp add: distanceToPoint_def dot_def subVectors_def vec_sel algebra_simps)
  show ?thesis
    by (simp add: joinsFace_def s(1) t d normal_of_seed [OF s] dist pl coplanarTolerance_def)
qed

lemma projected_triangle:
  "shoelaceSum (map (\<lambda>v. (vy v, vz v)) [a, b, c]) = vx (edgeCross a b c)"
  "shoelaceSum (map (\<lambda>v. (vx v, vz v)) [a, b, c]) = - vy (edgeCross a b c)"
  "shoelaceSum (map (\<lambda>v. (vx v, vy v)) [a, b, c]) = vz (edgeCross a b c)"
  by (simp_all add: shoelace3 cross2_def edgeCross_def crossVectors_def subVectors_def vec_sel
        algebra_simps)

text \<open>The face that a triangulated convex outline gives.\<close>

lemma sum_list_component:
  fixes g :: "'a \<Rightarrow> real"
  assumes "\<And>t. t \<in> set ts \<Longrightarrow> g t = c * h t"
  shows "sum_list (map g ts) = c * sum_list (map h ts)"
proof -
  have "map g ts = map (\<lambda>t. c * h t) ts" using assms by (intro map_cong) auto
  then have "sum_list (map g ts) = sum_list (map (\<lambda>t. c * h t) ts)" by (rule arg_cong)
  also have "\<dots> = c * sum_list (map h ts)" by (rule sum_list_scaled)
  finally show ?thesis .
qed

lemma convex_face_area:
  assumes co: "convexOutline u vs" and y: "\<bar>vy u\<bar> \<noteq> 1"
      and d: "distinct (map vertexKey vs)" and tr: "triangulates vs ts"
  shows "\<exists>f k. k < length vs \<and> facesOfTriangles ts = [f] \<and> faceVertices f = rotate k vs
               \<and> faceNormal f = u \<and> faceArea f = sum_list (map triangleArea ts)"
proof -
  from co have unit: "lengthSq u = 1" and n: "3 \<le> length vs"
    and pl0: "\<forall>v \<in> set vs. dot u (subVectors v (hd vs)) = 0"
    and p: "positivelyOriented u vs"
    by (simp_all add: convexOutline_def)
  have pl: "dot u (subVectors v w) = 0" if "v \<in> set vs" "w \<in> set vs" for v w
    using dot_subVectors_split [of u v w "hd vs"] pl0 that by simp
  define k2 where "k2 t = 2 * triangleArea t" for t
  have G: "\<exists>a b c. t = Triangle a b c \<and> a \<in> set vs \<and> b \<in> set vs \<and> c \<in> set vs
             \<and> getNormal a b c = u \<and> 0 < triangleArea t
             \<and> edgeCross a b c = multiplyScalar u (k2 t)" if "t \<in> set ts" for t
  proof -
    from triangulation_triangles [OF tr, of u] p that
    obtain a b c where t: "t = Triangle a b c"
      and v: "a \<in> set vs" "b \<in> set vs" "c \<in> set vs" and o: "0 < orientation u a b c"
      by blast
    note ot = oriented_triangle [OF unit pl [OF v(2) v(1)] pl [OF v(3) v(1)] o]
    have "k2 t = orientation u a b c" by (simp add: k2_def t ot(4))
    with t v o ot show ?thesis by auto
  qed
  from triangulation_vertices [OF tr] n
  have ne: "ts \<noteq> []" and cov: "set (concat (map triangleVertices ts)) = set vs"
    by auto
  have in0: "ts ! 0 \<in> set ts" using ne by simp
  from G [OF in0] obtain a0 b0 c0 where t0: "ts ! 0 = Triangle a0 b0 c0"
    and v0: "a0 \<in> set vs" and n0: "getNormal a0 b0 c0 = u"
    and ar0: "0 < triangleArea (Triangle a0 b0 c0)"
    by auto
  have joins: "\<forall>j. 0 < j \<and> j < length ts \<longrightarrow> joinsFace (ts ! 0) (ts ! j)"
  proof (intro allI impI)
    fix j assume "0 < j \<and> j < length ts"
    then have "ts ! j \<in> set ts" by simp
    from G [OF this] obtain a b c where tj: "ts ! j = Triangle a b c"
      and v: "a \<in> set vs" "b \<in> set vs" "c \<in> set vs" and nj: "getNormal a b c = u"
      by auto
    show "joinsFace (ts ! 0) (ts ! j)"
      unfolding t0 tj
      by (rule coplanar_triangles_join [OF n0 ar0 nj pl [OF v(1) v0] pl [OF v(2) v0]
            pl [OF v(3) v0]])
  qed
  have g: "groupTriangles ts = [[0 ..< length ts]]"
    by (rule single_group [OF ne joins])
  have m: "mset (uniqueVerticesOf ts) = mset vs"
    by (rule unique_vertices_perm [OF d cov])
  from sorted_outline [OF unit y n p m]
  obtain k where k: "k < length vs" and srt: "sortByAngle u (uniqueVerticesOf ts) = rotate k vs"
    by blast
  let ?ws = "rotate k vs"
  define S where "S = sum_list (map k2 ts)"
  have Spos: "0 < S"
    unfolding S_def using ne G by (intro sum_list_positive) (auto simp: k2_def)
  have areas: "sum_list (map triangleArea ts) = S / 2"
    unfolding S_def k2_def by (simp add: sum_list_scaled)
  have sx: "shoelaceSum (map (\<lambda>v. (vy v, vz v)) vs) = vx u * S"
  proof -
    have "shoelaceSum (map (\<lambda>v. (vy v, vz v)) (triangleVertices t)) = vx u * k2 t"
      if "t \<in> set ts" for t
    proof -
      from G [OF that] obtain a b c where "t = Triangle a b c"
        "edgeCross a b c = multiplyScalar u (k2 t)" by auto
      then show ?thesis
        by (simp add: triangleVertices_def projected_triangle multiplyScalar_def vec_sel
            del: list.map)
    qed
    then show ?thesis
      unfolding S_def triangulation_shoelace [OF tr, symmetric] by (rule sum_list_component)
  qed
  have sy: "shoelaceSum (map (\<lambda>v. (vx v, vz v)) vs) = - (vy u * S)"
  proof -
    have "shoelaceSum (map (\<lambda>v. (vx v, vz v)) (triangleVertices t)) = (- vy u) * k2 t"
      if "t \<in> set ts" for t
    proof -
      from G [OF that] obtain a b c where "t = Triangle a b c"
        "edgeCross a b c = multiplyScalar u (k2 t)" by auto
      then show ?thesis
        by (simp add: triangleVertices_def projected_triangle multiplyScalar_def vec_sel
            del: list.map)
    qed
    then have "sum_list (map (\<lambda>t. shoelaceSum (map (\<lambda>v. (vx v, vz v)) (triangleVertices t))) ts)
               = (- vy u) * sum_list (map k2 ts)"
      by (rule sum_list_component)
    then show ?thesis
      unfolding S_def triangulation_shoelace [OF tr] by simp
  qed
  have sz: "shoelaceSum (map (\<lambda>v. (vx v, vy v)) vs) = vz u * S"
  proof -
    have "shoelaceSum (map (\<lambda>v. (vx v, vy v)) (triangleVertices t)) = vz u * k2 t"
      if "t \<in> set ts" for t
    proof -
      from G [OF that] obtain a b c where "t = Triangle a b c"
        "edgeCross a b c = multiplyScalar u (k2 t)" by auto
      then show ?thesis
        by (simp add: triangleVertices_def projected_triangle multiplyScalar_def vec_sel
            del: list.map)
    qed
    then show ?thesis
      unfolding S_def triangulation_shoelace [OF tr, symmetric] by (rule sum_list_component)
  qed
  have rot: "shoelaceSum (map f ?ws) = shoelaceSum (map f vs)" for f :: "vec3 \<Rightarrow> real \<times> real"
    by (simp only: rotate_map [symmetric] shoelaceSum_rotate)
  have len: "3 \<le> length ?ws" using n by simp
  have mem: "?ws ! i \<in> set vs" if "i < 3" for i
  proof -
    from that len have "i < length ?ws" by simp
    then have "?ws ! i \<in> set ?ws" by (rule nth_mem)
    then show ?thesis by simp
  qed
  have fr: "crossVectors (facePlaneX u) (facePlaneY u) = u"
    by (rule face_frame(4) [OF unit y])
  have o3: "0 < orientation u (?ws ! 0) (?ws ! 1) (?ws ! 2)"
  proof -
    let ?P = "planePoint u (vec 0 0 0)"
    have "convex2 (rotate k (map ?P vs))"
      by (rule convex2_rotate [OF convex2_planePoints [OF fr p]])
    then have "convex2 (map ?P ?ws)" by (simp add: rotate_map)
    moreover have "vs \<noteq> []" using n by auto
    ultimately have "0 < orient2 (?P (?ws ! 0)) (?P (?ws ! 1)) (?P (?ws ! 2))"
      using convex2D [of "map ?P ?ws" 0 1 2] len by simp
    then show ?thesis by (simp add: orientation_planePoint [OF fr, of _ _ _ "vec 0 0 0"])
  qed
  note ot = oriented_triangle [OF unit pl [OF mem [of 1] mem [of 0]]
      pl [OF mem [of 2] mem [of 0]] o3, simplified]
  have N: "crossVectors (subVectors (?ws ! 1) (?ws ! 0)) (subVectors (?ws ! 2) (?ws ! 0))
           = multiplyScalar u (orientation u (?ws ! 0) (?ws ! 1) (?ws ! 2))"
    using ot(1) by (simp add: edgeCross_def)
  have k0: "orientation u (?ws ! 0) (?ws ! 1) (?ws ! 2) \<noteq> 0" using o3 by simp
  have nrm: "\<bar>vx (normalize (crossVectors (subVectors (?ws ! 1) (?ws ! 0))
                                            (subVectors (?ws ! 2) (?ws ! 0))))\<bar> = \<bar>vx u\<bar>"
            "\<bar>vy (normalize (crossVectors (subVectors (?ws ! 1) (?ws ! 0))
                                            (subVectors (?ws ! 2) (?ws ! 0))))\<bar> = \<bar>vy u\<bar>"
            "\<bar>vz (normalize (crossVectors (subVectors (?ws ! 1) (?ws ! 0))
                                            (subVectors (?ws ! 2) (?ws ! 0))))\<bar> = \<bar>vz u\<bar>"
    unfolding N by (rule normalize_multiple [OF unit k0])+
  have sx': "shoelaceSum (map (\<lambda>v. (vy v, vz v)) ?ws) = vx u * S" by (simp only: rot sx)
  have sy': "shoelaceSum (map (\<lambda>v. (vx v, vz v)) ?ws) = - (vy u * S)" by (simp only: rot sy)
  have sz': "shoelaceSum (map (\<lambda>v. (vx v, vy v)) ?ws) = vz u * S" by (simp only: rot sz)
  have area: "calculatePolygonArea ?ws = S / 2"
    by (rule planar_polygon_area [OF len nrm unit sx' sy' sz' less_imp_le [OF Spos]])
  have hd0: "hd [0 ..< length ts] = 0"
    using ne by (simp add: upt_conv_Cons)
  have "faceOfGroup ts [0 ..< length ts]
        = Some \<lparr>faceVertices = ?ws, faceNormal = u, faceArea = S / 2\<rparr>"
    unfolding faceOfGroup_def hd0 t0
    using Spos n0 by (simp add: Let_def map_nth srt area)
  then have "facesOfTriangles ts = [\<lparr>faceVertices = ?ws, faceNormal = u, faceArea = S / 2\<rparr>]"
    by (simp add: single_group_faces [OF g])
  with areas k show ?thesis
    by (intro exI [of _ "\<lparr>faceVertices = ?ws, faceNormal = u, faceArea = S / 2\<rparr>"]
          exI [of _ k]) simp
qed

text \<open>
  C6, as the code has it. When every triangle of a mesh passes the merge test against the
  first one, the triangles form a single group, which gives at most one face: the polygon
  through the deduplicated vertices in angular order around their centroid. The area of
  that face is the sum of the areas of the triangles for a mesh of one triangle with three
  different vertex keys and positive area, and for every triangulation of a flat, strictly
  convex outline that uses only the corners of the outline, when the corners have
  different vertex keys and the normal of the plane is not the y axis: the face then has
  the corners as its vertices, in the order of the outline.
\<close>

theorem merged_face_area:
  "(triangles \<noteq> []
      \<and> (\<forall>j. 0 < j \<and> j < length triangles \<longrightarrow> joinsFace (triangles ! 0) (triangles ! j))
    \<longrightarrow> groupTriangles triangles = [[0 ..< length triangles]]
        \<and> facesOfTriangles triangles
            = (case faceOfGroup triangles [0 ..< length triangles] of
                 None \<Rightarrow> [] | Some f \<Rightarrow> [f])
        \<and> length (facesOfTriangles triangles) \<le> 1)
   \<and> (distinct [vertexKey a, vertexKey b, vertexKey c] \<and> 0 < triangleArea (Triangle a b c)
      \<longrightarrow> (\<exists>f. facesOfTriangles [Triangle a b c] = [f]
               \<and> faceArea f = sum_list (map triangleArea [Triangle a b c])))
   \<and> (convexOutline u outline \<and> \<bar>vy u\<bar> \<noteq> 1 \<and> distinct (map vertexKey outline)
      \<and> triangulates outline mesh
      \<longrightarrow> (\<exists>f k. k < length outline \<and> facesOfTriangles mesh = [f]
                 \<and> faceVertices f = rotate k outline \<and> faceNormal f = u
                 \<and> faceArea f = sum_list (map triangleArea mesh)))"
proof (intro conjI impI)
  assume h: "triangles \<noteq> []
      \<and> (\<forall>j. 0 < j \<and> j < length triangles \<longrightarrow> joinsFace (triangles ! 0) (triangles ! j))"
  then show g: "groupTriangles triangles = [[0 ..< length triangles]]"
    using single_group by blast
  show f: "facesOfTriangles triangles
            = (case faceOfGroup triangles [0 ..< length triangles] of
                 None \<Rightarrow> [] | Some f \<Rightarrow> [f])"
    by (rule single_group_faces [OF g])
  show "length (facesOfTriangles triangles) \<le> 1"
    unfolding f by (simp split: option.split)
next
  assume "distinct [vertexKey a, vertexKey b, vertexKey c] \<and> 0 < triangleArea (Triangle a b c)"
  then show "\<exists>f. facesOfTriangles [Triangle a b c] = [f]
               \<and> faceArea f = sum_list (map triangleArea [Triangle a b c])"
    using single_triangle_face [of a b c] by simp
next
  assume h: "convexOutline u outline \<and> \<bar>vy u\<bar> \<noteq> 1 \<and> distinct (map vertexKey outline)
      \<and> triangulates outline mesh"
  show "\<exists>f k. k < length outline \<and> facesOfTriangles mesh = [f]
                 \<and> faceVertices f = rotate k outline \<and> faceNormal f = u
                 \<and> faceArea f = sum_list (map triangleArea mesh)"
    by (rule convex_face_area [OF h [THEN conjunct1] h [THEN conjunct2, THEN conjunct1]
          h [THEN conjunct2, THEN conjunct2, THEN conjunct1]
          h [THEN conjunct2, THEN conjunct2, THEN conjunct2]])
qed

lemma replicate_4: "replicate 4 c = [c, c, c, c]"
  by (simp add: numeral_eq_Suc)

lemma fixed4:
  "toFixed 4 0 = ''0.0000''" "toFixed 4 1 = ''1.0000''" "toFixed 4 (- 1) = ''-1.0000''"
  by (simp_all add: toFixed_def toFixedAbs_def decimalDigits.simps digitChar_def replicate_4)

lemma diamond_keys:
  "vertexKey (vec 0 0 0) = ''0.0000,0.0000,0.0000''"
  "vertexKey (vec 1 0 0) = ''1.0000,0.0000,0.0000''"
  "vertexKey (vec 0 1 0) = ''0.0000,1.0000,0.0000''"
  "vertexKey (vec (- 1) 0 0) = ''-1.0000,0.0000,0.0000''"
  "vertexKey (vec 0 (- 1) 0) = ''0.0000,-1.0000,0.0000''"
  by (simp_all add: vertexKey_def vec_sel fixed4)

lemma diamond_nth:
  "diamondTriangles ! 0 = Triangle (vec 0 0 0) (vec 1 0 0) (vec 0 1 0)"
  "diamondTriangles ! Suc 0 = Triangle (vec 0 0 0) (vec 0 1 0) (vec (- 1) 0 0)"
  "diamondTriangles ! 2 = Triangle (vec 0 0 0) (vec (- 1) 0 0) (vec 0 (- 1) 0)"
  "diamondTriangles ! 3 = Triangle (vec 0 0 0) (vec 0 (- 1) 0) (vec 1 0 0)"
  by (simp_all add: diamondTriangles_def)

lemma diamond_unique:
  "uniqueVerticesOf
     [Triangle (vec 0 0 0) (vec 1 0 0) (vec 0 1 0),
      Triangle (vec 0 0 0) (vec 0 1 0) (vec (- 1) 0 0),
      Triangle (vec 0 0 0) (vec (- 1) 0 0) (vec 0 (- 1) 0),
      Triangle (vec 0 0 0) (vec 0 (- 1) 0) (vec 1 0 0)]
     = [vec 0 0 0, vec 1 0 0, vec 0 1 0, vec (- 1) 0 0, vec 0 (- 1) 0]"
  by (simp add: uniqueVerticesOf_def triangleVertices_def diamond_keys)

lemma diamond_centroid:
  "centroidOf [vec 0 0 0, vec 1 0 0, vec 0 1 0, vec (- 1) 0 0, vec 0 (- 1) 0] = vec 0 0 0"
  by (simp add: centroidOf_def addVectors_def divideScalar_def multiplyScalar_def vec_sel)

lemma diamond_angles:
  "vertexAngle (vec 0 0 1) (vec 0 0 0) (vec 0 0 0) = 0"
  "vertexAngle (vec 0 0 1) (vec 0 0 0) (vec 1 0 0) = 0"
  "vertexAngle (vec 0 0 1) (vec 0 0 0) (vec 0 1 0) = pi / 2"
  "vertexAngle (vec 0 0 1) (vec 0 0 0) (vec (- 1) 0 0) = pi"
  "vertexAngle (vec 0 0 1) (vec 0 0 0) (vec 0 (- 1) 0) = - pi / 2"
  by (simp_all add: vertexAngle_def projectOnPlane_def atan2_def vec_ops Let_def)

lemma pi_cmp: "\<not> pi \<le> - (pi / 2)" "\<not> pi \<le> 0"
  using pi_gt_zero by linarith+

lemma diamond_sorted:
  "sortByAngle (vec 0 0 1) [vec 0 0 0, vec 1 0 0, vec 0 1 0, vec (- 1) 0 0, vec 0 (- 1) 0]
     = [vec 0 (- 1) 0, vec 0 0 0, vec 1 0 0, vec 0 1 0, vec (- 1) 0 0]"
  by (simp add: sortByAngle_def diamond_centroid diamond_angles pi_cmp)

lemma diamond_area:
  "calculatePolygonArea [vec 0 (- 1) 0, vec 0 0 0, vec 1 0 0, vec 0 1 0, vec (- 1) 0 0] = 3 / 2"
  by (simp add: calculatePolygonArea_def shoelaceSum_def cross2_def vec_ops Let_def)

lemma diamond_face:
  "faceOfGroup diamondTriangles [0, Suc 0, 2, 3]
     = Some \<lparr>faceVertices = [vec 0 (- 1) 0, vec 0 0 0, vec 1 0 0, vec 0 1 0, vec (- 1) 0 0],
             faceNormal = vec 0 0 1, faceArea = 3 / 2\<rparr>"
  by (simp add: faceOfGroup_def diamond_nth diamond_normals diamond_unique diamond_sorted diamond_area Let_def)

lemma diamond_faces:
  "facesOfTriangles diamondTriangles
     = [\<lparr>faceVertices = [vec 0 (- 1) 0, vec 0 0 0, vec 1 0 0, vec 0 1 0, vec (- 1) 0 0],
         faceNormal = vec 0 0 1, faceArea = 3 / 2\<rparr>]"
  by (simp add: facesOfTriangles_def diamond_groups diamond_face)

lemma diamond_triangles:
  "trianglesOf (\<lambda>v. v) [vec 0 0 0, vec 1 0 0, vec 0 1 0, vec (- 1) 0 0, vec 0 (- 1) 0]
     (Some [0, 1, 2, 0, 2, 3, 0, 3, 4, 0, 4, 1]) = diamondTriangles"
  by (simp add: trianglesOf_def diamondTriangles_def makeTriangle_def fromBufferAttribute_def
        getX_def upt_4)

lemma diamond_mesh_faces:
  "getFacesWithAreas exampleThree (exampleObjects(9 := diamondMesh)) (Some 9)
     = facesOfTriangles diamondTriangles"
  by (simp add: getFacesWithAreas_def diamondMesh_def emptyObject_def exampleThree_def
        diamond_triangles [simplified])

lemma diamond_triangle_areas: "sum_list (map triangleArea diamondTriangles) = 2"
  by (simp add: diamondTriangles_def triangleArea_def vec_ops)

text \<open>
  The triangles of the diamond lie in the plane \<open>z = 0\<close> and all pass the merge test;
  they are merged into one face. Its area is 3/2, the sum of the four triangle areas is 2.
\<close>

theorem diamond_area_counterexample:
  "joinsFace (diamondTriangles ! 0) (diamondTriangles ! 1)
   \<and> joinsFace (diamondTriangles ! 0) (diamondTriangles ! 2)
   \<and> joinsFace (diamondTriangles ! 0) (diamondTriangles ! 3)
   \<and> getFacesWithAreas exampleThree (exampleObjects(9 := diamondMesh)) (Some 9)
       = [\<lparr>faceVertices = [vec 0 (- 1) 0, vec 0 0 0, vec 1 0 0, vec 0 1 0, vec (- 1) 0 0],
           faceNormal = vec 0 0 1, faceArea = 3 / 2\<rparr>]
   \<and> sum_list (map triangleArea diamondTriangles) = 2
   \<and> \<not> \<bar>3 / 2 - sum_list (map triangleArea diamondTriangles)\<bar>
         \<le> 0.000001 * sum_list (map triangleArea diamondTriangles)"
  using diamond_joins by (simp add: diamond_mesh_faces diamond_faces diamond_triangle_areas)

lemma square_keys:
  "vertexKey (vec 1 1 0) = ''1.0000,1.0000,0.0000''"
  by (simp add: vertexKey_def vec_sel fixed4)

lemma plane_keys:
  "vertexKey (vec (- 1) 1 0) = ''-1.0000,1.0000,0.0000''"
  "vertexKey (vec (- 1) (- 1) 0) = ''-1.0000,-1.0000,0.0000''"
  "vertexKey (vec 1 (- 1) 0) = ''1.0000,-1.0000,0.0000''"
  by (simp_all add: vertexKey_def vec_sel fixed4)

lemma plane_unique:
  "uniqueVerticesOf planeTriangles
     = [vec (- 1) 1 0, vec (- 1) (- 1) 0, vec 1 1 0, vec 1 (- 1) 0]"
  by (simp add: planeTriangles_def uniqueVerticesOf_def triangleVertices_def plane_keys
        square_keys)

lemma triangulates_triangle: "triangulates [a, c, b] [Triangle a c b]"
  using triangulates.apex [where xs = "[]" and ys = "[]" and ls = "[]" and rs = "[]"
      and a = a and c = c and b = b and t = "Triangle a c b" and ts = "[Triangle a c b]"]
    triangulates.edge
  by simp

lemma triangulates_plane:
  "triangulates [a, c, d, b] [Triangle a c b, Triangle c d b]"
  using triangulates.apex [where xs = "[]" and ys = "[d]" and ls = "[]"
      and rs = "[Triangle c d b]" and a = a and c = c and b = b and t = "Triangle a c b"
      and ts = "[Triangle a c b, Triangle c d b]"]
    triangulates.edge [of a c] triangulates_triangle [of c d b]
  by simp

lemma triangulates_quad:
  "triangulates [a, x, c, b] [Triangle a x c, Triangle c b a]"
  using triangulates.apex [where xs = "[x]" and ys = "[]" and ls = "[Triangle a x c]"
      and rs = "[]" and a = a and c = c and b = b and t = "Triangle c b a"
      and ts = "[Triangle a x c, Triangle c b a]"]
    triangulates.edge [of c b] triangulates_triangle [of a x c]
  by simp

lemma example_outlines:
  "convexOutline (vec 0 0 1) planeOutline" "convexOutline (vec 0 0 1) squareOutline"
  by (simp_all add: convexOutline_def planeOutline_def squareOutline_def orientation_def
        edgeCross_def vec_ops)

lemma example_outline_keys:
  "distinct (map vertexKey planeOutline)" "distinct (map vertexKey squareOutline)"
  by (simp_all add: planeOutline_def squareOutline_def plane_keys square_keys diamond_keys)

lemma example_mesh_areas:
  "sum_list (map triangleArea planeTriangles) = 4" "sum_list (map triangleArea quadTriangles) = 1"
  by (simp_all add: planeTriangles_def quadTriangles_def triangleArea_def subVectors_def
        crossVectors_def vec_def vlength_along_z)

text \<open>
  The diamond passes the hypothesis on the merge test and gives one group. The triangle
  (0,0,0), (1,0,0), (0,1,0) alone gives one face of area 1/2. The square of side 2 is a
  convex outline in the plane \<open>z = 0\<close>, and its two triangles list the corners in the
  order first, second, fourth, third; they give one face of area 4 whose vertices are
  the corners in the order of the outline. The unit square written with the indices
  (0,1,2), (2,3,0) gives one face of area 1.
\<close>

theorem merged_face_area_witness:
  "diamondTriangles \<noteq> []
   \<and> joinsFace (diamondTriangles ! 0) (diamondTriangles ! 1)
   \<and> joinsFace (diamondTriangles ! 0) (diamondTriangles ! 2)
   \<and> joinsFace (diamondTriangles ! 0) (diamondTriangles ! 3)
   \<and> groupTriangles diamondTriangles = [[0 ..< length diamondTriangles]]
   \<and> length (facesOfTriangles diamondTriangles) \<le> 1
   \<and> distinct [vertexKey (vec 0 0 0), vertexKey (vec 1 0 0), vertexKey (vec 0 1 0)]
   \<and> triangleArea (Triangle (vec 0 0 0) (vec 1 0 0) (vec 0 1 0)) = 1 / 2
   \<and> (\<exists>f. facesOfTriangles [Triangle (vec 0 0 0) (vec 1 0 0) (vec 0 1 0)] = [f]
          \<and> faceArea f = 1 / 2)
   \<and> convexOutline (vec 0 0 1) planeOutline
   \<and> \<bar>vy (vec 0 0 1)\<bar> \<noteq> 1
   \<and> distinct (map vertexKey planeOutline)
   \<and> triangulates planeOutline planeTriangles
   \<and> uniqueVerticesOf planeTriangles
       = [vec (- 1) 1 0, vec (- 1) (- 1) 0, vec 1 1 0, vec 1 (- 1) 0]
   \<and> (\<exists>f k. k < 4 \<and> facesOfTriangles planeTriangles = [f]
          \<and> faceVertices f = rotate k planeOutline \<and> faceNormal f = vec 0 0 1
          \<and> faceArea f = 4)
   \<and> convexOutline (vec 0 0 1) squareOutline
   \<and> distinct (map vertexKey squareOutline)
   \<and> triangulates squareOutline quadTriangles
   \<and> (\<exists>f. facesOfTriangles quadTriangles = [f] \<and> faceArea f = 1)"
proof -
  have ne: "diamondTriangles \<noteq> []" by (simp add: diamondTriangles_def)
  have l: "length diamondTriangles = 4" by (simp add: diamondTriangles_def)
  have j: "\<forall>j. 0 < j \<and> j < length diamondTriangles
             \<longrightarrow> joinsFace (diamondTriangles ! 0) (diamondTriangles ! j)"
  proof (intro allI impI)
    fix j assume "0 < j \<and> j < length diamondTriangles"
    then have "j = 1 \<or> j = 2 \<or> j = 3" using l by auto
    then show "joinsFace (diamondTriangles ! 0) (diamondTriangles ! j)"
      using diamond_joins by auto
  qed
  have d: "distinct [vertexKey (vec 0 0 0), vertexKey (vec 1 0 0), vertexKey (vec 0 1 0)]"
    by (simp add: diamond_keys)
  have a: "triangleArea (Triangle (vec 0 0 0) (vec 1 0 0) (vec 0 1 0)) = 1 / 2"
    by (simp add: triangleArea_def vec_ops)
  then have p: "0 < triangleArea (Triangle (vec 0 0 0) (vec 1 0 0) (vec 0 1 0))" by simp
  have y: "\<bar>vy (vec 0 0 1)\<bar> \<noteq> 1" by (simp add: vec_sel)
  have tp: "triangulates planeOutline planeTriangles"
    unfolding planeOutline_def planeTriangles_def by (rule triangulates_plane)
  have tq: "triangulates squareOutline quadTriangles"
    unfolding squareOutline_def quadTriangles_def by (rule triangulates_quad)
  note M = merged_face_area [where triangles = diamondTriangles and a = "vec 0 0 0"
      and b = "vec 1 0 0" and c = "vec 0 1 0" and u = "vec 0 0 1" and outline = planeOutline
      and mesh = planeTriangles]
  note Q = merged_face_area [where triangles = diamondTriangles and a = "vec 0 0 0"
      and b = "vec 1 0 0" and c = "vec 0 1 0" and u = "vec 0 0 1" and outline = squareOutline
      and mesh = quadTriangles]
  note M1 = M [THEN conjunct1, THEN mp, OF conjI [OF ne j]]
  note e = M [THEN conjunct2, THEN conjunct1, THEN mp, OF conjI [OF d p]]
  note pl = M [THEN conjunct2, THEN conjunct2, THEN mp,
      OF conjI [OF example_outlines(1) conjI [OF y conjI [OF example_outline_keys(1) tp]]]]
  note qd = Q [THEN conjunct2, THEN conjunct2, THEN mp,
      OF conjI [OF example_outlines(2) conjI [OF y conjI [OF example_outline_keys(2) tq]]]]
  have g: "groupTriangles diamondTriangles = [[0 ..< length diamondTriangles]]"
    by (rule M1 [THEN conjunct1])
  have f: "length (facesOfTriangles diamondTriangles) \<le> 1"
    by (rule M1 [THEN conjunct2, THEN conjunct2])
  from e have e': "\<exists>f. facesOfTriangles [Triangle (vec 0 0 0) (vec 1 0 0) (vec 0 1 0)] = [f]
          \<and> faceArea f = 1 / 2"
    by (simp add: a)
  have lp: "length planeOutline = 4" by (simp add: planeOutline_def)
  from pl have pl': "\<exists>f k. k < 4 \<and> facesOfTriangles planeTriangles = [f]
          \<and> faceVertices f = rotate k planeOutline \<and> faceNormal f = vec 0 0 1
          \<and> faceArea f = 4"
    unfolding example_mesh_areas lp .
  from qd have qd': "\<exists>f. facesOfTriangles quadTriangles = [f] \<and> faceArea f = 1"
    unfolding example_mesh_areas by blast
  show ?thesis
    by (intro conjI ne diamond_joins g f d a e' example_outlines y example_outline_keys tp
          plane_unique pl' tq qd')
qed

end
